theory Spec2Isabelle
  imports Complex_Main "HOL-Library.Multiset"
begin

section \<open>Shared vocabulary\<close>

text \<open>
  A JavaScript value that has been thrown. \<open>Error m\<close> is an \<open>Error\<close> object with message
  \<open>m\<close>; \<open>HttpsError c m\<close> is the callable-function error of the functions SDK (a subclass of
  \<open>Error\<close>) with code \<open>c\<close>; \<open>Thrown\<close> is any thrown value that is not an \<open>Error\<close>.
\<close>

datatype https_code =
  Unauthenticated | InvalidArgument | NotFound | PermissionDenied | FailedPrecondition | Internal

datatype js_error = Error string | HttpsError https_code string | Thrown

text \<open>\<open>error instanceof Error ? error.message : fallback\<close>\<close>

fun message_or :: "js_error \<Rightarrow> string \<Rightarrow> string" where
  "message_or (Error m) fallback = m"
| "message_or (HttpsError c m) fallback = m"
| "message_or Thrown fallback = fallback"

text \<open>Decimal rendering of a non-negative integer, as a template literal prints a length.\<close>

definition digit_char :: "nat \<Rightarrow> char" where
  "digit_char d = ''0123456789'' ! d"

fun show_nat :: "nat \<Rightarrow> string" where
  "show_nat n = (if n < 10 then [digit_char n] else show_nat (n div 10) @ [digit_char (n mod 10)])"

declare show_nat.simps [simp del]

section \<open>Slot allocator (src/utils/schedule.ts)\<close>

text \<open>
  A \<open>Date\<close> is its time value: an integer number of milliseconds since the epoch (UTC).
  A wall-clock time (a calendar date with a time of day) is represented by the milliseconds
  since the epoch of that wall clock: \<open>L div MS_PER_DAY\<close> is the number of its calendar day
  and \<open>L mod MS_PER_DAY\<close> its time within the day. A calendar date (year, month, day of the
  month) is represented by the number of its day. Time values are unbounded integers: the
  limit of a \<open>Date\<close>, 8.64e15 milliseconds either side of the epoch, beyond which a \<open>Date\<close>
  is invalid, is not modelled.
\<close>

type_synonym instant = int

definition MS_PER_SECOND :: int where "MS_PER_SECOND = 1000"
definition MS_PER_MINUTE :: int where "MS_PER_MINUTE = 60000"
definition MS_PER_HOUR :: int where "MS_PER_HOUR = 3600000"
definition MS_PER_DAY :: int where "MS_PER_DAY = 86400000"

subsection \<open>The time zone of the host and the setters of \<open>Date\<close>\<close>

text \<open>
  The getters and setters of a \<open>Date\<close> (\<open>getHours\<close>, \<open>setHours\<close>, \<open>setDate\<close>, ...) read and
  write calendar fields in the time zone of the host the program runs on, whatever zone the
  program computes for. A host is given by the two conversions of the language:
  \<open>local_time\<close> is the wall clock of the host at an instant (\<open>LocalTime\<close>), \<open>utc_time\<close>
  the instant of a wall clock of the host (\<open>UTC\<close>). A setter converts the instant to the
  wall clock, replaces fields, and converts back; a wall clock that the zone of the host
  skips does not come back the same.
\<close>

record host =
  local_time :: "instant \<Rightarrow> int"
  utc_time :: "int \<Rightarrow> instant"

text \<open>A host whose zone is a fixed offset from UTC.\<close>

definition fixed_offset_host :: "int \<Rightarrow> host" where
  "fixed_offset_host offset =
     \<lparr>local_time = (\<lambda>t. t + offset), utc_time = (\<lambda>l. l - offset)\<rparr>"

text \<open>
  A host whose zone changes its offset once, at the instant \<open>transition\<close>. A wall clock that
  the change skips or repeats is converted with the offset in force before the change, as
  the language prescribes.
\<close>

definition jump_host :: "instant \<Rightarrow> int \<Rightarrow> int \<Rightarrow> host" where
  "jump_host transition before after =
     \<lparr>local_time = (\<lambda>t. if t < transition then t + before else t + after),
      utc_time = (\<lambda>l. if l - max before after < transition then l - before else l - after)\<rparr>"

text \<open>\<open>date.setFullYear(year, month, day)\<close>: the calendar date is replaced, the time within
  the day is kept. The three fields are given by the number of the day they name.\<close>

definition setFullYear :: "host \<Rightarrow> instant \<Rightarrow> int \<Rightarrow> instant" where
  "setFullYear H tv dayNumber =
     utc_time H (dayNumber * MS_PER_DAY + local_time H tv mod MS_PER_DAY)"

text \<open>\<open>date.setDate(date.getDate() + amount)\<close>\<close>

definition setDate_plus :: "host \<Rightarrow> instant \<Rightarrow> int \<Rightarrow> instant" where
  "setDate_plus H tv amount = utc_time H (local_time H tv + amount * MS_PER_DAY)"

text \<open>\<open>date.setHours(hours, minutes, seconds, milliseconds)\<close>\<close>

definition setHours4 :: "host \<Rightarrow> instant \<Rightarrow> int \<Rightarrow> int \<Rightarrow> int \<Rightarrow> int \<Rightarrow> instant" where
  "setHours4 H tv hours minutes seconds milliseconds =
     utc_time H ((local_time H tv div MS_PER_DAY) * MS_PER_DAY + hours * MS_PER_HOUR
       + minutes * MS_PER_MINUTE + seconds * MS_PER_SECOND + milliseconds)"

text \<open>\<open>date.setHours(hours)\<close>, \<open>date.setMinutes(minutes)\<close>, \<open>date.setSeconds(seconds)\<close> and
  \<open>date.setMilliseconds(milliseconds)\<close>: one field is replaced, the others are kept.\<close>

definition setHours :: "host \<Rightarrow> instant \<Rightarrow> int \<Rightarrow> instant" where
  "setHours H tv hours =
     (let t = local_time H tv
      in utc_time H ((t div MS_PER_DAY) * MS_PER_DAY + hours * MS_PER_HOUR + t mod MS_PER_HOUR))"

definition setMinutes :: "host \<Rightarrow> instant \<Rightarrow> int \<Rightarrow> instant" where
  "setMinutes H tv minutes =
     (let t = local_time H tv
      in utc_time H ((t div MS_PER_HOUR) * MS_PER_HOUR + minutes * MS_PER_MINUTE + t mod MS_PER_MINUTE))"

definition setSeconds :: "host \<Rightarrow> instant \<Rightarrow> int \<Rightarrow> instant" where
  "setSeconds H tv seconds =
     (let t = local_time H tv
      in utc_time H ((t div MS_PER_MINUTE) * MS_PER_MINUTE + seconds * MS_PER_SECOND + t mod MS_PER_SECOND))"

definition setMilliseconds :: "host \<Rightarrow> instant \<Rightarrow> int \<Rightarrow> instant" where
  "setMilliseconds H tv milliseconds =
     (let t = local_time H tv
      in utc_time H ((t div MS_PER_SECOND) * MS_PER_SECOND + milliseconds))"

subsection \<open>The functions of date-fns that the allocator calls\<close>

text \<open>
  These functions belong to the libraries date-fns and date-fns-tz, not to the repository;
  they are written here as the libraries define them, on the setters above.
  \<open>startOfDay(date)\<close> is \<open>date.setHours(0, 0, 0, 0)\<close> on a copy.
\<close>

definition startOfDay :: "host \<Rightarrow> instant \<Rightarrow> instant" where
  "startOfDay H date = setHours4 H date 0 0 0 0"

text \<open>\<open>addDays(date, amount)\<close> returns a copy of the date when the amount is zero and
  otherwise calls \<open>setDate(getDate() + amount)\<close>.\<close>

definition addDays :: "host \<Rightarrow> instant \<Rightarrow> nat \<Rightarrow> instant" where
  "addDays H date amount = (if amount = 0 then date else setDate_plus H date (int amount))"

text \<open>\<open>set(day, { hours: hour, minutes: 0, seconds: 0, milliseconds: 0 })\<close> calls the four
  setters one after the other.\<close>

definition set_hours :: "host \<Rightarrow> instant \<Rightarrow> nat \<Rightarrow> instant" where
  "set_hours H date hour =
     setMilliseconds H (setSeconds H (setMinutes H (setHours H date (int hour)) 0) 0) 0"

subsection \<open>The functions of date-fns-tz, for the zone \<open>Asia/Dubai\<close>\<close>

text \<open>
  The offset of \<open>Asia/Dubai\<close> from UTC at an instant, as the time zone database gives it:
  local mean time, UTC+3:41:12, until the first of January 1920 and UTC+4 since.
  \<open>calcOffset\<close> of date-fns-tz reads it from the formatter of the platform.
\<close>

definition DUBAI_OFFSET_MS :: int where
  "DUBAI_OFFSET_MS = 4 * MS_PER_HOUR"

definition DUBAI_LMT_OFFSET_MS :: int where
  "DUBAI_LMT_OFFSET_MS = 13272000"

definition DUBAI_LMT_END :: instant where
  "DUBAI_LMT_END = - 1577936472000"

definition calcOffset :: "instant \<Rightarrow> int" where
  "calcOffset t = (if t < DUBAI_LMT_END then DUBAI_LMT_OFFSET_MS else DUBAI_OFFSET_MS)"

text \<open>\<open>fixOffset(date, offset, timezoneString)\<close>: the offset for a wall clock, from a first
  guess.\<close>

definition fixOffset :: "int \<Rightarrow> int \<Rightarrow> int" where
  "fixOffset localTS offset =
     (let utcGuess = localTS - offset;
          o2 = calcOffset utcGuess
      in if offset = o2 then offset
         else
           (let utcGuess2 = utcGuess - (o2 - offset);
                o3 = calcOffset utcGuess2
            in if o2 = o3 then o2 else max o2 o3))"

text \<open>\<open>tzParseTimezone(TIMEZONE, date, isUtcDate)\<close> for the name of a zone. Without the flag
  the date is taken as a wall clock, and the first guess is made at the instant that the
  fields of the date on the host give when read as UTC.\<close>

definition tzParseTimezone :: "host \<Rightarrow> instant \<Rightarrow> bool \<Rightarrow> int" where
  "tzParseTimezone H date isUtcDate =
     (let utcDate = (if isUtcDate then date else local_time H date);
          offset = calcOffset utcDate;
          fixedOffset = (if isUtcDate then offset else fixOffset date offset)
      in - fixedOffset)"

text \<open>
  \<open>toZonedTime(date, TIMEZONE)\<close> computes the wall clock of the zone and writes its fields
  into a \<open>Date\<close> of the host: \<open>new Date(0)\<close>, then \<open>setFullYear\<close> with the date of the wall
  clock, then \<open>setHours\<close> with its time.
\<close>

definition toZonedTime :: "host \<Rightarrow> instant \<Rightarrow> instant" where
  "toZonedTime H date =
     (let offsetMilliseconds = tzParseTimezone H date True;
          d = date - offsetMilliseconds;
          resultDate = setFullYear H 0 (d div MS_PER_DAY)
      in setHours4 H resultDate ((d mod MS_PER_DAY) div MS_PER_HOUR)
           ((d mod MS_PER_HOUR) div MS_PER_MINUTE) ((d mod MS_PER_MINUTE) div MS_PER_SECOND)
           (d mod MS_PER_SECOND))"

text \<open>\<open>fromZonedTime(date, TIMEZONE)\<close> reads the fields of the date on the host as a wall
  clock of the zone.\<close>

definition fromZonedTime :: "host \<Rightarrow> instant \<Rightarrow> instant" where
  "fromZonedTime H date =
     (let utc = local_time H date;
          offsetMilliseconds = tzParseTimezone H utc False
      in utc + offsetMilliseconds)"

text \<open>
  \<open>formatInTimeZone(t, TIMEZONE, "yyyy-MM-dd HH:mm")\<close> formats the fields that
  \<open>toZonedTime(t, TIMEZONE)\<close> has on the host: the text names a calendar day, an hour and a
  minute. The key is modelled by these three components, the day by its number. From the
  year 1 on, two texts are equal exactly when the three components are; for earlier years
  date-fns prints the year without its sign, and a day before the year 1 can share its
  text with a day 365 days or more after it, further apart than the days of one walk.
\<close>

type_synonym slot_key = "int \<times> int \<times> int"

definition formatInTimeZone :: "host \<Rightarrow> instant \<Rightarrow> slot_key" where
  "formatInTimeZone H t =
     (let l = local_time H (toZonedTime H t)
      in (l div MS_PER_DAY, (l mod MS_PER_DAY) div MS_PER_HOUR, (l mod MS_PER_HOUR) div MS_PER_MINUTE))"

subsection \<open>The allocator\<close>

definition SLOT_HOURS :: "nat list" where
  "SLOT_HOURS = map (\<lambda>index. index + 4) [0..<16]"

datatype tweet_status = Draft | Scheduled | Queued | Manual | Processing | Posted | Failed

datatype tweet_media_type = Image | Video

record tweet_media =
  media_id :: string
  storagePath :: string
  downloadUrl :: string
  contentType :: string
  size :: nat
  media_type :: tweet_media_type

record tweet =
  tweet_id :: string
  authorUid :: string
  groupId :: string
  accountId :: string
  tweet_text :: string
  scheduledFor :: instant
  status :: tweet_status
  createdAt :: instant
  lastUpdatedAt :: instant
  lastError :: "string option"
  postedAt :: "instant option"
  media :: "tweet_media list"

definition getTakenSlotKeys :: "host \<Rightarrow> tweet list \<Rightarrow> slot_key set" where
  "getTakenSlotKeys H tweets = set (map (\<lambda>tw. formatInTimeZone H (scheduledFor tw)) tweets)"

text \<open>The inner loop of \<open>getNextScheduleSlot\<close>: \<open>for (const hour of SLOT_HOURS)\<close>.\<close>

fun scan_hours :: "host \<Rightarrow> slot_key set \<Rightarrow> instant \<Rightarrow> instant \<Rightarrow> nat list \<Rightarrow> instant option" where
  "scan_hours H takenSlots now day [] = None"
| "scan_hours H takenSlots now day (hour # hours) =
     (let slotLocal = set_hours H day hour;
          slotUtc = fromZonedTime H slotLocal
      in if slotUtc \<le> now then scan_hours H takenSlots now day hours
         else if formatInTimeZone H slotUtc \<notin> takenSlots then Some slotUtc
         else scan_hours H takenSlots now day hours)"

text \<open>The outer loop: \<open>for (let dayOffset = 0; dayOffset < 365; dayOffset += 1)\<close>.\<close>

function scan_days :: "host \<Rightarrow> slot_key set \<Rightarrow> instant \<Rightarrow> instant \<Rightarrow> nat \<Rightarrow> js_error + instant" where
  "scan_days H takenSlots now baseDay dayOffset =
     (if dayOffset < 365 then
        (case scan_hours H takenSlots now (addDays H baseDay dayOffset) SLOT_HOURS of
           Some slotUtc \<Rightarrow> Inr slotUtc
         | None \<Rightarrow> scan_days H takenSlots now baseDay (dayOffset + 1))
      else Inl (Error ''Unable to find an available schedule slot within 365 days''))"
  by pat_completeness auto
termination
  by (relation "measure (\<lambda>(H, takenSlots, now, baseDay, dayOffset). 365 - dayOffset)") auto

declare scan_days.simps [simp del]

definition getNextScheduleSlot :: "host \<Rightarrow> tweet list \<Rightarrow> instant \<Rightarrow> js_error + instant" where
  "getNextScheduleSlot H tweets now =
     (let takenSlots = getTakenSlotKeys H tweets;
          zonedNow = toZonedTime H now;
          baseDay = startOfDay H zonedNow
      in scan_days H takenSlots now baseDay 0)"

text \<open>
  The inner loop of \<open>getNextScheduleSlots\<close>, which leaves the loop as soon as \<open>count\<close>
  slots are collected and otherwise pushes every free slot. The count is a number of slots
  (the callers pass the length of a file list), hence a natural number, written \<open>cnt\<close>.
\<close>

fun collect_hours :: "host \<Rightarrow> slot_key set \<Rightarrow> instant \<Rightarrow> nat \<Rightarrow> instant \<Rightarrow> nat list \<Rightarrow> instant list \<Rightarrow> instant list" where
  "collect_hours H takenSlots now cnt day [] slots = slots"
| "collect_hours H takenSlots now cnt day (hour # hours) slots =
     (if length slots \<ge> cnt then slots
      else
        (let slotLocal = set_hours H day hour;
             slotUtc = fromZonedTime H slotLocal
         in if slotUtc \<le> now then collect_hours H takenSlots now cnt day hours slots
            else if formatInTimeZone H slotUtc \<notin> takenSlots
              then collect_hours H takenSlots now cnt day hours (slots @ [slotUtc])
            else collect_hours H takenSlots now cnt day hours slots))"

function collect_days :: "host \<Rightarrow> slot_key set \<Rightarrow> instant \<Rightarrow> nat \<Rightarrow> instant \<Rightarrow> nat \<Rightarrow> instant list \<Rightarrow> instant list" where
  "collect_days H takenSlots now cnt baseDay dayOffset slots =
     (if dayOffset < 365 \<and> length slots < cnt then
        collect_days H takenSlots now cnt baseDay (dayOffset + 1)
          (collect_hours H takenSlots now cnt (addDays H baseDay dayOffset) SLOT_HOURS slots)
      else slots)"
  by pat_completeness auto
termination
  by (relation "measure (\<lambda>(H, takenSlots, now, cnt, baseDay, dayOffset, slots). 365 - dayOffset)") auto

declare collect_days.simps [simp del]

definition getNextScheduleSlots :: "host \<Rightarrow> tweet list \<Rightarrow> nat \<Rightarrow> instant \<Rightarrow> js_error + instant list" where
  "getNextScheduleSlots H tweets cnt now =
     (let takenSlots = getTakenSlotKeys H tweets;
          zonedNow = toZonedTime H now;
          baseDay = startOfDay H zonedNow;
          slots = collect_days H takenSlots now cnt baseDay 0 []
      in if length slots < cnt
         then Inl (Error (''Unable to find '' @ show_nat cnt @ '' available schedule slots within 365 days''))
         else Inr slots)"


section \<open>Publication coordinator (functions/src/index.ts)\<close>

subsection \<open>Stored documents and the outside world\<close>

record tweet_media_doc =
  doc_media_id :: "string option"
  doc_storagePath :: "string option"
  doc_contentType :: "string option"
  doc_media_type :: "tweet_media_type option"

text \<open>
  The stored tweet document: the fields of \<open>TweetDocData\<close> and the three fields the
  functions write (\<open>lastUpdatedAt\<close>, \<open>lastError\<close>, \<open>postedAt\<close>).
\<close>

record tweet_doc =
  doc_authorUid :: string
  doc_groupId :: string
  doc_accountId :: string
  doc_text :: string
  doc_scheduledFor :: instant
  doc_status :: tweet_status
  doc_media :: "tweet_media_doc list option"
  doc_lastUpdatedAt :: "instant option"
  doc_lastError :: "string option"
  doc_postedAt :: "instant option"

record twitter_credentials =
  appKey :: string
  appSecret :: string
  accessToken :: string
  accessSecret :: string

record twitter_account_doc =
  provider :: string
  ownerUid :: string
  displayName :: "string option"
  handle :: "string option"
  twitter :: "twitter_credentials option"

type_synonym buffer = string

text \<open>The argument of \<open>client.v2.tweet\<close>: a plain text, or a text with a tuple of media ids.\<close>

datatype tweet_request = TextOnly string | WithMedia string "string list"

record twitter_client =
  uploadMedia :: "buffer \<Rightarrow> string \<Rightarrow> js_error + string"
  v2_tweet :: "tweet_request \<Rightarrow> js_error + unit"

text \<open>
  One field of the object passed to \<open>update\<close>; \<open>FieldValue.serverTimestamp()\<close> is a
  constructor of its own because its value is chosen by the store.
\<close>

datatype field_update =
  SetStatus tweet_status
| SetLastUpdatedAtServerTimestamp
| SetLastError "string option"
| SetPostedAtServerTimestamp

text \<open>What an attempt does to the outside, in the order it does it.\<close>

datatype effect =
  DocUpdate string "field_update list"
| MediaUploadCall buffer string
| TweetCall tweet_request

text \<open>
  The state of the collaborators: the \<open>tweets\<close> collection, the account documents under
  \<open>groups/{groupId}/socialAccounts/{accountId}\<close>, the store's clock and the effects so far.
\<close>

record world =
  tweet_docs :: "string \<rightharpoonup> tweet_doc"
  socialAccounts :: "string \<times> string \<rightharpoonup> twitter_account_doc"
  serverTime :: instant
  effects :: "effect list"

text \<open>The collaborators that are only called: object storage and the client constructor.\<close>

record services =
  file_exists :: "string \<Rightarrow> js_error + bool"
  file_download :: "string \<Rightarrow> js_error + buffer"
  createTwitterClient :: "twitter_credentials \<Rightarrow> js_error + twitter_client"

fun apply_field :: "instant \<Rightarrow> field_update \<Rightarrow> tweet_doc \<Rightarrow> tweet_doc" where
  "apply_field ts (SetStatus s) d = d\<lparr>doc_status := s\<rparr>"
| "apply_field ts SetLastUpdatedAtServerTimestamp d = d\<lparr>doc_lastUpdatedAt := Some ts\<rparr>"
| "apply_field ts (SetLastError e) d = d\<lparr>doc_lastError := e\<rparr>"
| "apply_field ts SetPostedAtServerTimestamp d = d\<lparr>doc_postedAt := Some ts\<rparr>"

text \<open>
  \<open>tweetRef.update(fields)\<close> and \<open>transaction.update(tweetRef, fields)\<close>: the write is
  rejected when the document does not exist.
\<close>

definition update_doc :: "world \<Rightarrow> string \<Rightarrow> field_update list \<Rightarrow> js_error + world" where
  "update_doc w tweetRef payload =
     (case tweet_docs w tweetRef of
        None \<Rightarrow> Inl (Error ''No document to update'')
      | Some d \<Rightarrow>
          Inr (w\<lparr>tweet_docs := (tweet_docs w)(tweetRef \<mapsto> fold (apply_field (serverTime w)) payload d),
                 effects := effects w @ [DocUpdate tweetRef payload]\<rparr>))"

definition markTweetFailure :: "world \<Rightarrow> string \<Rightarrow> string \<Rightarrow> js_error + world" where
  "markTweetFailure w tweetRef message =
     update_doc w tweetRef
       [SetStatus Failed, SetLastUpdatedAtServerTimestamp, SetLastError (Some message)]"

definition markTweetPosted :: "world \<Rightarrow> string \<Rightarrow> js_error + world" where
  "markTweetPosted w tweetRef =
     update_doc w tweetRef
       [SetStatus Posted, SetPostedAtServerTimestamp, SetLastUpdatedAtServerTimestamp,
        SetLastError None]"

subsection \<open>Media upload\<close>

definition downloadMediaFromStorage :: "services \<Rightarrow> string \<Rightarrow> js_error + buffer" where
  "downloadMediaFromStorage sv path =
     (case file_exists sv path of
        Inl e \<Rightarrow> Inl e
      | Inr exists \<Rightarrow>
          if \<not> exists then Inl (Error (''Media file not found at path '' @ path))
          else file_download sv path)"

text \<open>
  The body of the loop of \<open>uploadMediaAttachments\<close> for one attachment: its outcome and
  the calls it makes. An absent or empty storage path or content type is falsy.
\<close>

definition upload_item ::
  "services \<Rightarrow> twitter_client \<Rightarrow> tweet_media_doc \<Rightarrow> (js_error + string) \<times> effect list" where
  "upload_item sv client item =
     (case (doc_storagePath item, doc_contentType item) of
        (Some path, Some mime) \<Rightarrow>
          if path = [] \<or> mime = []
          then (Inl (Error ''Media attachment missing storage path or content type.''), [])
          else
            (case downloadMediaFromStorage sv path of
               Inl error \<Rightarrow>
                 (Inl (Error (''Unable to upload media '' @ path @ '': '' @
                    message_or error ''Unknown error while uploading media.'')), [])
             | Inr buf \<Rightarrow>
                 (case uploadMedia client buf mime of
                    Inl error \<Rightarrow>
                      (Inl (Error (''Unable to upload media '' @ path @ '': '' @
                         message_or error ''Unknown error while uploading media.'')),
                       [MediaUploadCall buf mime])
                  | Inr mediaId \<Rightarrow> (Inr mediaId, [MediaUploadCall buf mime])))
      | _ \<Rightarrow> (Inl (Error ''Media attachment missing storage path or content type.''), []))"

text \<open>The loop \<open>for (const item of attachments)\<close>, which stops at the first failure.\<close>

fun upload_loop ::
  "services \<Rightarrow> twitter_client \<Rightarrow> tweet_media_doc list \<Rightarrow> string list \<Rightarrow> world
     \<Rightarrow> (js_error + string list) \<times> world" where
  "upload_loop sv client [] mediaIds w = (Inr mediaIds, w)"
| "upload_loop sv client (item # attachments) mediaIds w =
     (case upload_item sv client item of
        (Inl e, calls) \<Rightarrow> (Inl e, w\<lparr>effects := effects w @ calls\<rparr>)
      | (Inr mediaId, calls) \<Rightarrow>
          upload_loop sv client attachments (mediaIds @ [mediaId])
            (w\<lparr>effects := effects w @ calls\<rparr>))"

definition uploadMediaAttachments ::
  "services \<Rightarrow> twitter_client \<Rightarrow> tweet_media_doc list option \<Rightarrow> world
     \<Rightarrow> (js_error + string list) \<times> world" where
  "uploadMediaAttachments sv client media_opt w =
     (case media_opt of
        None \<Rightarrow> (Inr [], w)
      | Some media_list \<Rightarrow>
          if length media_list = 0 then (Inr [], w)
          else upload_loop sv client (take 4 media_list) [] w)"

fun toMediaIdTuple :: "string list \<Rightarrow> js_error + string list" where
  "toMediaIdTuple [a] = Inr [a]"
| "toMediaIdTuple [a, b] = Inr [a, b]"
| "toMediaIdTuple [a, b, c] = Inr [a, b, c]"
| "toMediaIdTuple [a, b, c, d] = Inr [a, b, c, d]"
| "toMediaIdTuple mediaIds = Inl (Error ''Media IDs must contain between 1 and 4 items.'')"

definition call_tweet :: "twitter_client \<Rightarrow> tweet_request \<Rightarrow> world \<Rightarrow> (js_error + unit) \<times> world" where
  "call_tweet client request w =
     (v2_tweet client request, w\<lparr>effects := effects w @ [TweetCall request]\<rparr>)"

definition publishTweetWithClient ::
  "services \<Rightarrow> twitter_client \<Rightarrow> string \<Rightarrow> tweet_doc \<Rightarrow> world \<Rightarrow> (js_error + unit) \<times> world" where
  "publishTweetWithClient sv client tweetRef data w =
     (case uploadMediaAttachments sv client (doc_media data) w of
        (Inl e, w1) \<Rightarrow> (Inl e, w1)
      | (Inr mediaIds, w1) \<Rightarrow>
          (let sent =
             (if length mediaIds > 0 then
                (case toMediaIdTuple mediaIds of
                   Inl e \<Rightarrow> (Inl e, w1)
                 | Inr mediaPayload \<Rightarrow> call_tweet client (WithMedia (doc_text data) mediaPayload) w1)
              else call_tweet client (TextOnly (doc_text data)) w1)
           in case sent of
                (Inl e, w2) \<Rightarrow> (Inl e, w2)
              | (Inr u, w2) \<Rightarrow>
                  (case markTweetPosted w2 tweetRef of
                     Inl e \<Rightarrow> (Inl e, w2)
                   | Inr w3 \<Rightarrow> (Inr (), w3))))"

definition fetchTwitterAccountCredentials ::
  "world \<Rightarrow> string \<Rightarrow> string \<Rightarrow> (string \<times> twitter_credentials) option" where
  "fetchTwitterAccountCredentials w gid aid =
     (case socialAccounts w (gid, aid) of
        None \<Rightarrow> None
      | Some data \<Rightarrow>
          if provider data \<noteq> ''twitter'' then None
          else
            (case twitter data of
               None \<Rightarrow> None
             | Some tw \<Rightarrow>
                 if appKey tw = [] \<or> appSecret tw = [] \<or> accessToken tw = [] \<or> accessSecret tw = []
                 then None
                 else Some (ownerUid data,
                   \<lparr>appKey = appKey tw, appSecret = appSecret tw,
                    accessToken = accessToken tw, accessSecret = accessSecret tw\<rparr>)))"


subsection \<open>The sweep path: processTweetDocument\<close>

text \<open>
  The body of the transaction of \<open>processTweetDocument\<close>. The store runs a transaction
  atomically, so the body is one function of the world. \<open>current.get('status')\<close> of a
  document that does not exist is \<open>undefined\<close>.
\<close>

definition sweep_lock :: "world \<Rightarrow> string \<Rightarrow> js_error + bool \<times> world" where
  "sweep_lock w tweetRef =
     (let currentStatus = map_option doc_status (tweet_docs w tweetRef)
      in if currentStatus = Some Processing \<or> currentStatus = Some Posted then Inr (False, w)
         else
           (case update_doc w tweetRef
                   [SetStatus Processing, SetLastUpdatedAtServerTimestamp, SetLastError None] of
              Inl e \<Rightarrow> Inl e
            | Inr w1 \<Rightarrow> Inr (True, w1)))"

text \<open>\<open>await markTweetFailure(tweetRef, message); return\<close>\<close>

definition fail_and_return :: "world \<Rightarrow> string \<Rightarrow> string \<Rightarrow> (js_error + unit) \<times> world" where
  "fail_and_return w tweetRef message =
     (case markTweetFailure w tweetRef message of
        Inl e \<Rightarrow> (Inl e, w)
      | Inr w1 \<Rightarrow> (Inr (), w1))"

text \<open>The rest of \<open>processTweetDocument\<close>, after the lock is acquired.\<close>

definition sweep_publish ::
  "services \<Rightarrow> string \<Rightarrow> tweet_doc \<Rightarrow> world \<Rightarrow> (js_error + unit) \<times> world" where
  "sweep_publish sv tweetRef data w =
     (case fetchTwitterAccountCredentials w (doc_groupId data) (doc_accountId data) of
        None \<Rightarrow>
          fail_and_return w tweetRef ''Twitter account configuration not found for this tweet.''
      | Some (owner, credentials) \<Rightarrow>
          if owner \<noteq> doc_authorUid data
          then fail_and_return w tweetRef
                 ''You do not have permission to post with this social account.''
          else
            (case createTwitterClient sv credentials of
               Inl error \<Rightarrow>
                 fail_and_return w tweetRef
                   (message_or error ''Unable to initialize Twitter client'')
             | Inr client \<Rightarrow>
                 (case publishTweetWithClient sv client tweetRef data w of
                    (Inl error, w1) \<Rightarrow>
                      fail_and_return w1 tweetRef (message_or error ''Failed to post tweet'')
                  | (Inr u, w1) \<Rightarrow> (Inr (), w1))))"

text \<open>
  \<open>data\<close> is the snapshot the query returned (\<open>doc.data()\<close>); the transaction reads the
  document again.
\<close>

definition processTweetDocument ::
  "services \<Rightarrow> string \<Rightarrow> tweet_doc \<Rightarrow> world \<Rightarrow> (js_error + unit) \<times> world" where
  "processTweetDocument sv tweetRef data w =
     (case sweep_lock w tweetRef of
        Inl e \<Rightarrow> (Inl e, w)
      | Inr (lockAcquired, w1) \<Rightarrow>
          if \<not> lockAcquired then (Inr (), w1)
          else sweep_publish sv tweetRef data w1)"

subsection \<open>The manual path: publishTweetNow\<close>

text \<open>\<open>String.prototype.trim\<close>, on the white space of ASCII.\<close>

definition is_white_space :: "char \<Rightarrow> bool" where
  "is_white_space c \<longleftrightarrow> c \<in> set [CHR '' '', CHR 0x09, CHR 0x0A, CHR 0x0B, CHR 0x0C, CHR 0x0D]"

definition trim :: "string \<Rightarrow> string" where
  "trim s = rev (dropWhile is_white_space (rev (dropWhile is_white_space s)))"

text \<open>The body of the transaction of \<open>publishTweetNow\<close>; \<open>uid\<close> is \<open>context.auth.uid\<close>.\<close>

definition manual_lock :: "world \<Rightarrow> string \<Rightarrow> string \<Rightarrow> js_error + tweet_doc \<times> world" where
  "manual_lock w tweetRef uid =
     (case tweet_docs w tweetRef of
        None \<Rightarrow> Inl (HttpsError NotFound ''Tweet not found.'')
      | Some currentData \<Rightarrow>
          if doc_authorUid currentData \<noteq> uid
            then Inl (HttpsError PermissionDenied ''You do not have access to this tweet.'')
          else if doc_status currentData = Processing
            then Inl (HttpsError FailedPrecondition ''Tweet is already being processed.'')
          else if doc_status currentData = Posted
            then Inl (HttpsError FailedPrecondition ''Tweet has already been posted.'')
          else if doc_status currentData = Draft
            then Inl (HttpsError FailedPrecondition ''Draft tweets cannot be published.'')
          else if doc_status currentData \<noteq> Manual
            then Inl (HttpsError FailedPrecondition
                   ''Tweet must be marked as manual before publishing.'')
          else
            (case update_doc w tweetRef
                    [SetStatus Processing, SetLastUpdatedAtServerTimestamp, SetLastError None] of
               Inl e \<Rightarrow> Inl e
             | Inr w1 \<Rightarrow> Inr (currentData, w1)))"

text \<open>\<open>await markTweetFailure(tweetRef, message); throw err\<close>\<close>

definition fail_and_throw ::
  "world \<Rightarrow> string \<Rightarrow> string \<Rightarrow> js_error \<Rightarrow> (js_error + bool) \<times> world" where
  "fail_and_throw w tweetRef message err =
     (case markTweetFailure w tweetRef message of
        Inl e \<Rightarrow> (Inl e, w)
      | Inr w1 \<Rightarrow> (Inl err, w1))"

text \<open>The rest of \<open>publishTweetNow\<close>, after the lock is acquired.\<close>

definition manual_publish ::
  "services \<Rightarrow> string \<Rightarrow> string \<Rightarrow> tweet_doc \<Rightarrow> world \<Rightarrow> (js_error + bool) \<times> world" where
  "manual_publish sv tweetRef uid tweetData w =
     (case fetchTwitterAccountCredentials w (doc_groupId tweetData) (doc_accountId tweetData) of
        None \<Rightarrow>
          fail_and_throw w tweetRef ''Twitter account configuration not found for this tweet.''
            (HttpsError FailedPrecondition
               ''Twitter account configuration not found for this tweet.'')
      | Some (owner, credentials) \<Rightarrow>
          if owner \<noteq> uid
          then fail_and_throw w tweetRef
                 ''You do not have permission to post with this social account.''
                 (HttpsError PermissionDenied
                    ''You do not have permission to post with this social account.'')
          else
            (case createTwitterClient sv credentials of
               Inl error \<Rightarrow>
                 (let message = message_or error ''Unable to initialize Twitter client''
                  in fail_and_throw w tweetRef message (HttpsError Internal message))
             | Inr client \<Rightarrow>
                 (case publishTweetWithClient sv client tweetRef tweetData w of
                    (Inl error, w1) \<Rightarrow>
                      (let message = message_or error ''Failed to post tweet''
                       in fail_and_throw w1 tweetRef message (HttpsError Internal message))
                  | (Inr u, w1) \<Rightarrow> (Inr True, w1))))"

text \<open>
  \<open>auth\<close> is \<open>context.auth\<close> (the caller's uid when authenticated); \<open>tweetId_arg\<close> is
  \<open>data?.tweetId\<close> when it is a string.
\<close>

definition publishTweetNow ::
  "services \<Rightarrow> string option \<Rightarrow> string option \<Rightarrow> world \<Rightarrow> (js_error + bool) \<times> world" where
  "publishTweetNow sv auth tweetId_arg w =
     (case auth of
        None \<Rightarrow> (Inl (HttpsError Unauthenticated ''Authentication is required.''), w)
      | Some uid \<Rightarrow>
          (let tweetId = (case tweetId_arg of Some raw \<Rightarrow> trim raw | None \<Rightarrow> [])
           in if tweetId = [] then (Inl (HttpsError InvalidArgument ''Tweet ID is required.''), w)
              else
                (case manual_lock w tweetId uid of
                   Inl error \<Rightarrow>
                     (case error of
                        HttpsError c m \<Rightarrow> (Inl error, w)
                      | _ \<Rightarrow>
                          (Inl (HttpsError Internal
                             (message_or error ''Unable to prepare tweet for publishing.'')), w))
                 | Inr (tweetData, w1) \<Rightarrow> manual_publish sv tweetId uid tweetData w1)))"

subsection \<open>Two attempts on one item\<close>

text \<open>
  Two attempts run side by side. The store serialises transactions and single writes, so
  an execution is a sequence of atomic steps, each taken by one of the attempts: the lock
  transaction, then either a failure write, or the post followed by the posted write.
  Which of the two follows the lock is the outcome of the collaborators (credentials,
  client, storage, provider), and is left open. The counter \<open>cfg_posts\<close> counts the posts
  the provider has accepted. The item is never deleted, so a write to it succeeds; an
  attempt that stops between two steps simply takes no further step.
\<close>

datatype attempt = AttemptA | AttemptB

datatype trigger = Sweep | ManualCall string

datatype lock_outcome = Acquired | Skipped | Refused js_error

datatype phase = Idle | Holding | Tweeted | Finished

definition lock_attempt :: "trigger \<Rightarrow> world \<Rightarrow> string \<Rightarrow> lock_outcome \<times> world" where
  "lock_attempt tr w tweetRef =
     (case tr of
        Sweep \<Rightarrow>
          (case sweep_lock w tweetRef of
             Inl e \<Rightarrow> (Refused e, w)
           | Inr (lockAcquired, w1) \<Rightarrow> (if lockAcquired then Acquired else Skipped, w1))
      | ManualCall uid \<Rightarrow>
          (case manual_lock w tweetRef uid of
             Inl e \<Rightarrow> (Refused e, w)
           | Inr (tweetData, w1) \<Rightarrow> (Acquired, w1)))"

record config =
  cfg_world :: world
  cfg_phase :: "attempt \<Rightarrow> phase"
  cfg_posts :: nat


inductive step :: "string \<Rightarrow> (attempt \<Rightarrow> trigger) \<Rightarrow> config \<Rightarrow> config \<Rightarrow> bool"
  for tweetRef :: string and triggers :: "attempt \<Rightarrow> trigger" where
  lock_step:
    "cfg_phase c a = Idle \<Longrightarrow>
     lock_attempt (triggers a) (cfg_world c) tweetRef = (outcome, w1) \<Longrightarrow>
     step tweetRef triggers c
       (c\<lparr>cfg_world := w1,
          cfg_phase := (cfg_phase c)(a := (if outcome = Acquired then Holding else Finished))\<rparr>)"
| failure_step:
    "cfg_phase c a = Holding \<Longrightarrow>
     markTweetFailure (cfg_world c) tweetRef message = Inr w1 \<Longrightarrow>
     step tweetRef triggers c
       (c\<lparr>cfg_world := w1, cfg_phase := (cfg_phase c)(a := Finished)\<rparr>)"
| post_step:
    "cfg_phase c a = Holding \<Longrightarrow>
     step tweetRef triggers c
       (c\<lparr>cfg_phase := (cfg_phase c)(a := Tweeted), cfg_posts := cfg_posts c + 1\<rparr>)"
| posted_step:
    "cfg_phase c a = Tweeted \<Longrightarrow>
     markTweetPosted (cfg_world c) tweetRef = Inr w1 \<Longrightarrow>
     step tweetRef triggers c
       (c\<lparr>cfg_world := w1, cfg_phase := (cfg_phase c)(a := Finished)\<rparr>)"



section \<open>Bulk scheduler (src/services/bulkUploadService.ts)\<close>

text \<open>The fields of a browser \<open>File\<close> that the code reads.\<close>

record upload_file =
  file_name :: string
  file_type :: string
  file_size :: nat

record tweet_draft =
  draft_text :: string
  draft_scheduledFor :: instant
  draft_groupId :: string
  draft_accountId :: string
  draft_status :: "tweet_status option"
  draft_media :: "tweet_media list option"


record bulk_schedule_progress =
  total :: nat
  completed :: nat
  failed :: nat
  currentFile :: string



datatype bulk_effect =
  Progress bulk_schedule_progress
| UploadAttempt upload_file
| CreateAttempt tweet_draft









section \<open>Notions used in the statements\<close>

subsection \<open>Slot allocator\<close>

text \<open>A slot is free when it lies strictly after now and its key is not taken.\<close>

definition free_slot :: "host \<Rightarrow> slot_key set \<Rightarrow> instant \<Rightarrow> instant \<Rightarrow> bool" where
  "free_slot H takenSlots now t \<longleftrightarrow> now < t \<and> formatInTimeZone H t \<notin> takenSlots"

text \<open>The instant the loops compute for a day offset and an hour, and the list of the
  instants they visit, in the order they visit them.\<close>

definition slot_at :: "host \<Rightarrow> instant \<Rightarrow> nat \<Rightarrow> nat \<Rightarrow> instant" where
  "slot_at H baseDay dayOffset hour = fromZonedTime H (set_hours H (addDays H baseDay dayOffset) hour)"

definition day_slots :: "host \<Rightarrow> instant \<Rightarrow> nat \<Rightarrow> instant list" where
  "day_slots H baseDay dayOffset = map (slot_at H baseDay dayOffset) SLOT_HOURS"

definition grid :: "host \<Rightarrow> instant \<Rightarrow> nat \<Rightarrow> instant list" where
  "grid H baseDay lo = concat (map (day_slots H baseDay) [lo..<365])"

text \<open>An instant of the hourly grid: the wall clock of \<open>Asia/Dubai\<close> at the instant shows an
  hour of \<open>SLOT_HOURS\<close>, on the hour. This notion does not depend on the host.\<close>

definition on_slot_grid :: "instant \<Rightarrow> bool" where
  "on_slot_grid t \<longleftrightarrow>
     (\<exists>hour\<in>set SLOT_HOURS. (t + calcOffset t) mod MS_PER_DAY = int hour * MS_PER_HOUR)"

text \<open>
  A host on which the calendar arithmetic of the allocator is exact: converting a wall
  clock to an instant and back never leaves the calendar day, and every wall clock whose
  hour is one of \<open>SLOT_HOURS\<close> exists on the host, so that it comes back unchanged. A host
  of fixed offset is one, and so is a host whose zone moves its clock forward by an hour at
  midnight or in the small hours of the night.
\<close>

definition regular_host :: "host \<Rightarrow> bool" where
  "regular_host H \<longleftrightarrow>
     (\<forall>l. local_time H (utc_time H l) div MS_PER_DAY = l div MS_PER_DAY)
   \<and> (\<forall>l. nat ((l mod MS_PER_DAY) div MS_PER_HOUR) \<in> set SLOT_HOURS
         \<longrightarrow> local_time H (utc_time H l) = l)"

text \<open>
  The offset of \<open>Asia/Dubai\<close> at a wall clock of the zone; the wall clock of the hour
  \<open>hour\<close> of the day \<open>dayNumber + dayOffset\<close>; and the instant at which \<open>Asia/Dubai\<close> shows
  it.
\<close>

definition wall_offset :: "int \<Rightarrow> int" where
  "wall_offset l =
     (if l < DUBAI_LMT_END + DUBAI_LMT_OFFSET_MS then DUBAI_LMT_OFFSET_MS else DUBAI_OFFSET_MS)"

definition slot_wall :: "int \<Rightarrow> nat \<Rightarrow> nat \<Rightarrow> int" where
  "slot_wall dayNumber dayOffset hour =
     (dayNumber + int dayOffset) * MS_PER_DAY + int hour * MS_PER_HOUR"

definition slot_value :: "int \<Rightarrow> nat \<Rightarrow> nat \<Rightarrow> instant" where
  "slot_value dayNumber dayOffset hour =
     slot_wall dayNumber dayOffset hour - wall_offset (slot_wall dayNumber dayOffset hour)"

text \<open>The instants of the hourly grid of \<open>Asia/Dubai\<close> from the day \<open>dayNumber + lo\<close> to the
  day \<open>dayNumber + 364\<close>, in the order of the days and hours.\<close>

definition slot_grid :: "int \<Rightarrow> nat \<Rightarrow> instant list" where
  "slot_grid dayNumber lo = concat (map (\<lambda>dayOffset. map (slot_value dayNumber dayOffset) SLOT_HOURS) [lo..<365])"

text \<open>
  Example data: a host whose zone is the fixed offset UTC+4; a host whose zone passes from
  UTC+2 to UTC+3 at 2024-04-25T22:00:00Z, as \<open>Africa/Cairo\<close> did, so that its wall clock
  goes from midnight to 01:00; a host whose zone passes from UTC-10 to UTC+14 at
  2011-12-30T10:00:00Z, as \<open>Pacific/Apia\<close> did, so that its wall clock goes from the end of
  the 29th of December 2011 to the beginning of the 31st; and a tweet scheduled at the given
  instant.
\<close>

definition dubai_host :: host where
  "dubai_host = fixed_offset_host (4 * MS_PER_HOUR)"

definition cairo_host :: host where
  "cairo_host = jump_host 1714082400000 (2 * MS_PER_HOUR) (3 * MS_PER_HOUR)"

definition apia_host :: host where
  "apia_host = jump_host 1325239200000 (- 10 * MS_PER_HOUR) (14 * MS_PER_HOUR)"

definition example_tweet :: "instant \<Rightarrow> tweet" where
  "example_tweet t = \<lparr>tweet_id = ''t'', authorUid = ''u'', groupId = ''g'', accountId = ''a'',
     tweet_text = '''', scheduledFor = t, status = Scheduled, createdAt = 0, lastUpdatedAt = 0,
     lastError = None, postedAt = None, media = []\<rparr>"

subsection \<open>Publication coordinator\<close>

text \<open>Example data: a stored tweet of author \<open>u1\<close>, a world that holds it under the id
  \<open>t1\<close> and has no account documents, and collaborators that always succeed.\<close>

definition example_doc :: "tweet_status \<Rightarrow> tweet_doc" where
  "example_doc s = \<lparr>doc_authorUid = ''u1'', doc_groupId = ''g1'', doc_accountId = ''a1'',
     doc_text = ''hello'', doc_scheduledFor = 0, doc_status = s, doc_media = None,
     doc_lastUpdatedAt = None, doc_lastError = None, doc_postedAt = None\<rparr>"

definition example_world :: "tweet_status \<Rightarrow> world" where
  "example_world s = \<lparr>tweet_docs = [''t1'' \<mapsto> example_doc s], socialAccounts = Map.empty,
     serverTime = 1000, effects = []\<rparr>"

definition example_client :: twitter_client where
  "example_client = \<lparr>uploadMedia = (\<lambda>buf mime. Inr (''id-'' @ buf)), v2_tweet = (\<lambda>request. Inr ())\<rparr>"

definition example_services :: services where
  "example_services = \<lparr>file_exists = (\<lambda>path. Inr True), file_download = (\<lambda>path. Inr path),
     createTwitterClient = (\<lambda>credentials. Inr example_client)\<rparr>"

text \<open>The fields the lock transactions write.\<close>

definition lock_fields :: "field_update list" where
  "lock_fields = [SetStatus Processing, SetLastUpdatedAtServerTimestamp, SetLastError None]"

text \<open>The attachments of a stored tweet; an absent \<open>media\<close> field holds none.\<close>

definition media_of :: "tweet_doc \<Rightarrow> tweet_media_doc list" where
  "media_of data = (case doc_media data of None \<Rightarrow> [] | Some media_list \<Rightarrow> media_list)"

definition is_tweet_call :: "effect \<Rightarrow> bool" where
  "is_tweet_call e = (case e of TweetCall request \<Rightarrow> True | _ \<Rightarrow> False)"

definition is_media_upload_call :: "effect \<Rightarrow> bool" where
  "is_media_upload_call e = (case e of MediaUploadCall buf mime \<Rightarrow> True | _ \<Rightarrow> False)"


text \<open>Example data: an attachment with the given id, storage path and content type.\<close>

definition example_media :: "string \<Rightarrow> string option \<Rightarrow> string option \<Rightarrow> tweet_media_doc" where
  "example_media i path mime =
     \<lparr>doc_media_id = Some i, doc_storagePath = path, doc_contentType = mime,
      doc_media_type = Some Image\<rparr>"

definition example_doc_with_media :: "tweet_media_doc list \<Rightarrow> tweet_doc" where
  "example_doc_with_media media_list = (example_doc Processing)\<lparr>doc_media := Some media_list\<rparr>"

definition example_png :: "string \<Rightarrow> tweet_media_doc" where
  "example_png path = example_media path (Some path) (Some ''image/png'')"


text \<open>The fields \<open>markTweetFailure\<close> writes.\<close>

definition failure_fields :: "string \<Rightarrow> field_update list" where
  "failure_fields message =
     [SetStatus Failed, SetLastUpdatedAtServerTimestamp, SetLastError (Some message)]"




subsection \<open>Two attempts on one item\<close>









subsection \<open>Bulk scheduler\<close>

text \<open>The files whose upload was attempted, in the order of the attempts.\<close>

definition upload_attempts :: "bulk_effect list \<Rightarrow> upload_file list" where
  "upload_attempts made = concat (map (\<lambda>e. case e of UploadAttempt f \<Rightarrow> [f] | _ \<Rightarrow> []) made)"






text \<open>The number of post calls among the given effects that the provider accepted.\<close>

definition accepted_posts :: "twitter_client \<Rightarrow> effect list \<Rightarrow> nat" where
  "accepted_posts client made =
     length (filter (\<lambda>e. case e of
                           TweetCall request \<Rightarrow>
                             (case v2_tweet client request of Inr u \<Rightarrow> True | Inl error \<Rightarrow> False)
                         | _ \<Rightarrow> False) made)"

text \<open>
  The client the sweep pipeline builds for an item, if it gets that far, and the number of
  accepted posts among the effects that lead from one world to another.
\<close>

definition sweep_client :: "services \<Rightarrow> tweet_doc \<Rightarrow> world \<Rightarrow> twitter_client option" where
  "sweep_client sv data w =
     (case fetchTwitterAccountCredentials w (doc_groupId data) (doc_accountId data) of
        None \<Rightarrow> None
      | Some (owner, credentials) \<Rightarrow>
          if owner \<noteq> doc_authorUid data then None
          else (case createTwitterClient sv credentials of
                  Inl error \<Rightarrow> None
                | Inr client \<Rightarrow> Some client))"

definition posts_made :: "services \<Rightarrow> tweet_doc \<Rightarrow> world \<Rightarrow> world \<Rightarrow> nat" where
  "posts_made sv data w w1 =
     (case sweep_client sv data w of
        None \<Rightarrow> 0
      | Some client \<Rightarrow> accepted_posts client (drop (length (effects w)) (effects w1)))"

section \<open>The slot allocator: the loops as list operations\<close>

lemma find_append_cases:
  "find P (xs @ ys) = (case find P xs of Some x \<Rightarrow> Some x | None \<Rightarrow> find P ys)"
  by (induction xs) auto

lemma scan_hours_find:
  "scan_hours H takenSlots now day hours =
     find (free_slot H takenSlots now) (map (\<lambda>hour. fromZonedTime H (set_hours H day hour)) hours)"
  by (induction hours) (auto simp: free_slot_def Let_def)

lemma grid_unfold:
  "dayOffset < 365 \<Longrightarrow> grid H baseDay dayOffset = day_slots H baseDay dayOffset @ grid H baseDay (dayOffset + 1)"
  by (simp add: grid_def upt_conv_Cons)

lemma grid_empty: "\<not> dayOffset < 365 \<Longrightarrow> grid H baseDay dayOffset = []"
  by (simp add: grid_def)

lemma scan_days_find:
  "scan_days H takenSlots now baseDay dayOffset =
     (case find (free_slot H takenSlots now) (grid H baseDay dayOffset) of
        Some slotUtc \<Rightarrow> Inr slotUtc
      | None \<Rightarrow> Inl (Error ''Unable to find an available schedule slot within 365 days''))"
proof (induction H takenSlots now baseDay dayOffset rule: scan_days.induct)
  case (1 H takenSlots now baseDay dayOffset)
  show ?case
  proof (cases "dayOffset < 365")
    case True
    have day: "scan_hours H takenSlots now (addDays H baseDay dayOffset) SLOT_HOURS =
        find (free_slot H takenSlots now) (day_slots H baseDay dayOffset)"
      by (simp add: scan_hours_find day_slots_def slot_at_def cong: map_cong)
    show ?thesis
    proof (cases "find (free_slot H takenSlots now) (day_slots H baseDay dayOffset)")
      case None
      with True day "1.IH" show ?thesis
        by (subst scan_days.simps) (simp add: grid_unfold find_append_cases)
    next
      case (Some s)
      with True day show ?thesis
        by (subst scan_days.simps) (simp add: grid_unfold find_append_cases)
    qed
  next
    case False
    then show ?thesis
      by (subst scan_days.simps) (simp add: grid_empty)
  qed
qed

lemma collect_hours_take:
  "collect_hours H takenSlots now cnt day hours slots =
     slots @ take (cnt - length slots)
       (filter (free_slot H takenSlots now) (map (\<lambda>hour. fromZonedTime H (set_hours H day hour)) hours))"
proof (induction hours arbitrary: slots)
  case Nil
  then show ?case by simp
next
  case (Cons hour hours)
  show ?case
  proof (cases "cnt \<le> length slots")
    case True
    then show ?thesis by simp
  next
    case False
    then obtain k where k: "cnt - length slots = Suc k"
      by (cases "cnt - length slots") auto
    then have k': "cnt - Suc (length slots) = k" by simp
    from False k k' show ?thesis
      by (simp add: Cons.IH free_slot_def Let_def)
  qed
qed

lemma take_take_append:
  "(slots @ take (cnt - length slots) xs) @
     take (cnt - length (slots @ take (cnt - length slots) xs)) ys =
   slots @ take (cnt - length slots) (xs @ ys)"
  by (simp add: min_def)

lemma collect_days_take:
  "collect_days H takenSlots now cnt baseDay dayOffset slots =
     slots @ take (cnt - length slots) (filter (free_slot H takenSlots now) (grid H baseDay dayOffset))"
proof (induction H takenSlots now cnt baseDay dayOffset slots rule: collect_days.induct)
  case (1 H takenSlots now cnt baseDay dayOffset slots)
  show ?case
  proof (cases "dayOffset < 365 \<and> length slots < cnt")
    case True
    have day: "collect_hours H takenSlots now cnt (addDays H baseDay dayOffset) SLOT_HOURS slots =
        slots @ take (cnt - length slots) (filter (free_slot H takenSlots now) (day_slots H baseDay dayOffset))"
      by (simp add: collect_hours_take day_slots_def slot_at_def cong: map_cong)
    from True have "collect_days H takenSlots now cnt baseDay dayOffset slots =
        collect_days H takenSlots now cnt baseDay (dayOffset + 1)
          (collect_hours H takenSlots now cnt (addDays H baseDay dayOffset) SLOT_HOURS slots)"
      by (subst collect_days.simps) simp
    also have "\<dots> = (slots @ take (cnt - length slots) (filter (free_slot H takenSlots now) (day_slots H baseDay dayOffset))) @
        take (cnt - length (slots @ take (cnt - length slots) (filter (free_slot H takenSlots now) (day_slots H baseDay dayOffset))))
          (filter (free_slot H takenSlots now) (grid H baseDay (dayOffset + 1)))"
      using "1.IH" [OF True] day by simp
    also have "\<dots> = slots @ take (cnt - length slots) (filter (free_slot H takenSlots now) (grid H baseDay dayOffset))"
      using True by (simp only: take_take_append grid_unfold filter_append)
    finally show ?thesis .
  next
    case False
    then show ?thesis
      by (subst collect_days.simps) (auto simp: grid_empty)
  qed
qed

lemma getNextScheduleSlot_find:
  "getNextScheduleSlot H tweets now =
     (case find (free_slot H (getTakenSlotKeys H tweets) now)
             (grid H (startOfDay H (toZonedTime H now)) 0) of
        Some slotUtc \<Rightarrow> Inr slotUtc
      | None \<Rightarrow> Inl (Error ''Unable to find an available schedule slot within 365 days''))"
  by (simp add: getNextScheduleSlot_def Let_def scan_days_find)

lemma getNextScheduleSlots_take:
  "getNextScheduleSlots H tweets cnt now =
     (let slots = take cnt (filter (free_slot H (getTakenSlotKeys H tweets) now)
             (grid H (startOfDay H (toZonedTime H now)) 0))
      in if length slots < cnt
         then Inl (Error (''Unable to find '' @ show_nat cnt @ '' available schedule slots within 365 days''))
         else Inr slots)"
  by (simp add: getNextScheduleSlots_def Let_def collect_days_take)

lemma find_sorted_least:
  "sorted_wrt (<) xs \<Longrightarrow> find P xs = Some s \<Longrightarrow> t \<in> set xs \<Longrightarrow> P t \<Longrightarrow> s \<le> (t::int)"
  by (induction xs) (auto split: if_splits)

lemma find_Some_holds: "find P xs = Some s \<Longrightarrow> s \<in> set xs \<and> P s"
  by (induction xs) (auto split: if_splits)

lemma sorted_wrt_less_distinct: "sorted_wrt (<) (xs :: int list) \<Longrightarrow> distinct xs"
  by (induction xs) auto

lemma sorted_wrt_take_filter:
  "sorted_wrt R xs \<Longrightarrow> sorted_wrt R (take n (filter P xs))"
  by (simp add: sorted_wrt_filter sorted_wrt_take)

lemma find_as_filter: "find P xs = (case filter P xs of [] \<Rightarrow> None | x # _ \<Rightarrow> Some x)"
  by (induction xs) auto

section \<open>The slot allocator: arithmetic of the grid\<close>

lemma ms_facts:
  "MS_PER_DAY = 24 * MS_PER_HOUR" "MS_PER_HOUR = 60 * MS_PER_MINUTE" "0 < MS_PER_MINUTE"
  "0 < MS_PER_HOUR" "0 < MS_PER_DAY" "MS_PER_MINUTE = 60 * MS_PER_SECOND" "0 < MS_PER_SECOND"
  by (simp_all add: MS_PER_DAY_def MS_PER_HOUR_def MS_PER_MINUTE_def MS_PER_SECOND_def)

lemma SLOT_HOURS_eq: "SLOT_HOURS = [4..<20]"
  unfolding SLOT_HOURS_def by (simp add: map_add_upt)

lemma hours_bound: "h \<in> set SLOT_HOURS \<longleftrightarrow> 4 \<le> h \<and> h < 20"
  by (simp only: SLOT_HOURS_eq set_upt atLeastLessThan_iff)

lemma local_div_day:
  assumes "h < 24"
  shows "((b + int d) * MS_PER_DAY + int h * MS_PER_HOUR) div MS_PER_DAY = b + int d"
proof -
  have "0 \<le> int h * MS_PER_HOUR" "int h * MS_PER_HOUR < MS_PER_DAY"
    using assms by (simp_all add: MS_PER_DAY_def MS_PER_HOUR_def)
  then have "(int h * MS_PER_HOUR) div MS_PER_DAY = 0" by simp
  then show ?thesis using ms_facts(5) by (simp add: div_mult_self3)
qed

lemma local_mod_day:
  assumes "h < 24"
  shows "((b + int d) * MS_PER_DAY + int h * MS_PER_HOUR) mod MS_PER_DAY = int h * MS_PER_HOUR"
proof -
  have "0 \<le> int h * MS_PER_HOUR" "int h * MS_PER_HOUR < MS_PER_DAY"
    using assms by (simp_all add: MS_PER_DAY_def MS_PER_HOUR_def)
  then show ?thesis by simp
qed

lemma local_mod_hour:
  "((b + int d) * MS_PER_DAY + int h * MS_PER_HOUR) mod MS_PER_HOUR = 0"
  by (simp add: ms_facts(1))

lemma lmt_facts:
  "DUBAI_LMT_END + DUBAI_LMT_OFFSET_MS = - 18263 * MS_PER_DAY"
  "DUBAI_LMT_END + DUBAI_OFFSET_MS = - 18263 * MS_PER_DAY + 1128000"
  "DUBAI_OFFSET_MS - DUBAI_LMT_OFFSET_MS = 1128000"
  by (simp_all add: DUBAI_LMT_END_def DUBAI_LMT_OFFSET_MS_def DUBAI_OFFSET_MS_def MS_PER_DAY_def
      MS_PER_HOUR_def)

text \<open>The wall clock of \<open>Asia/Dubai\<close> never runs backwards, and the wall clock of a slot
  is not one of those the zone skipped when it left local mean time.\<close>

lemma wall_mono: "t \<le> t' \<Longrightarrow> t + calcOffset t \<le> t' + calcOffset t'"
  by (simp add: calcOffset_def DUBAI_LMT_OFFSET_MS_def DUBAI_OFFSET_MS_def MS_PER_HOUR_def)

lemma calcOffset_wall:
  "wall_offset (t + calcOffset t) = calcOffset t"
  by (simp add: calcOffset_def wall_offset_def DUBAI_LMT_OFFSET_MS_def DUBAI_OFFSET_MS_def
      MS_PER_HOUR_def)

lemma slot_wall_exists:
  assumes "h \<in> set SLOT_HOURS"
  shows "slot_wall n d h < DUBAI_LMT_END + DUBAI_LMT_OFFSET_MS
       \<or> DUBAI_LMT_END + DUBAI_OFFSET_MS \<le> slot_wall n d h"
proof -
  from assms have h: "4 \<le> int h" "int h < 20" by (simp_all add: hours_bound)
  define D where "D = n + int d"
  show ?thesis
  proof (cases "D < - 18263")
    case True
    then have "D * 86400000 \<le> - 18264 * 86400000" by simp
    with h have "slot_wall n d h < DUBAI_LMT_END + DUBAI_LMT_OFFSET_MS"
      unfolding lmt_facts slot_wall_def D_def [symmetric] MS_PER_DAY_def MS_PER_HOUR_def by linarith
    then show ?thesis ..
  next
    case False
    then have "- 18263 * 86400000 \<le> D * 86400000" by simp
    with h have "DUBAI_LMT_END + DUBAI_OFFSET_MS \<le> slot_wall n d h"
      unfolding lmt_facts slot_wall_def D_def [symmetric] MS_PER_DAY_def MS_PER_HOUR_def by linarith
    then show ?thesis ..
  qed
qed

lemma slot_value_wall:
  assumes "h \<in> set SLOT_HOURS"
  shows "slot_value n d h + calcOffset (slot_value n d h) = slot_wall n d h"
  using slot_wall_exists [OF assms, of n d]
  unfolding slot_value_def wall_offset_def calcOffset_def
  by (auto simp: DUBAI_LMT_OFFSET_MS_def DUBAI_OFFSET_MS_def MS_PER_HOUR_def)

lemma slot_wall_less:
  assumes "h < 24" "h' < 24"
  shows "slot_wall b d h < slot_wall b d' h' \<longleftrightarrow> d < d' \<or> (d = d' \<and> h < h')"
proof -
  have eq: "slot_wall b x y = (b * 24 + (int x * 24 + int y)) * MS_PER_HOUR" for x y
    unfolding slot_wall_def by (simp add: ms_facts(1) algebra_simps)
  have "slot_wall b d h < slot_wall b d' h'
      \<longleftrightarrow> int d * 24 + int h < int d' * 24 + int h'"
    unfolding eq using ms_facts(4) by (simp only: mult_less_cancel_right_pos add_less_cancel_left)
  also have "\<dots> \<longleftrightarrow> d < d' \<or> (d = d' \<and> h < h')"
    using assms by auto
  finally show ?thesis .
qed

lemma slot_value_mono:
  assumes "h \<in> set SLOT_HOURS" "h' \<in> set SLOT_HOURS" "slot_wall b d h < slot_wall b d' h'"
  shows "slot_value b d h < slot_value b d' h'"
  using slot_wall_exists [OF assms(1), of b d] slot_wall_exists [OF assms(2), of b d'] assms(3)
  unfolding slot_value_def wall_offset_def
  by (auto simp: DUBAI_LMT_END_def DUBAI_LMT_OFFSET_MS_def DUBAI_OFFSET_MS_def MS_PER_HOUR_def)

lemma slot_value_less:
  assumes "h \<in> set SLOT_HOURS" "h' \<in> set SLOT_HOURS"
  shows "slot_value b d h < slot_value b d' h' \<longleftrightarrow> d < d' \<or> (d = d' \<and> h < h')"
proof -
  from assms have lt: "h < 24" "h' < 24" by (simp_all add: hours_bound)
  show ?thesis
  proof
    assume less: "slot_value b d h < slot_value b d' h'"
    show "d < d' \<or> (d = d' \<and> h < h')"
    proof (rule ccontr)
      assume "\<not> (d < d' \<or> (d = d' \<and> h < h'))"
      then have "d' < d \<or> (d' = d \<and> h' < h) \<or> (d = d' \<and> h = h')" by auto
      then show False
      proof (elim disjE)
        assume "d' < d"
        then have "slot_wall b d' h' < slot_wall b d h" by (simp add: slot_wall_less [OF lt(2,1)])
        from slot_value_mono [OF assms(2,1) this] less show False by simp
      next
        assume "d' = d \<and> h' < h"
        then have "slot_wall b d' h' < slot_wall b d h" by (simp add: slot_wall_less [OF lt(2,1)])
        from slot_value_mono [OF assms(2,1) this] less show False by simp
      next
        assume "d = d' \<and> h = h'"
        with less show False by simp
      qed
    qed
  next
    assume "d < d' \<or> (d = d' \<and> h < h')"
    then have "slot_wall b d h < slot_wall b d' h'" by (simp add: slot_wall_less [OF lt])
    then show "slot_value b d h < slot_value b d' h'" by (rule slot_value_mono [OF assms])
  qed
qed

lemma sorted_slot_day: "sorted_wrt (<) (map (slot_value b d) SLOT_HOURS)"
  unfolding sorted_wrt_map
proof (rule sorted_wrt_mono_rel [where P = "(<)"])
  fix x y :: nat
  assume "x \<in> set SLOT_HOURS" "y \<in> set SLOT_HOURS" "x < y"
  then show "slot_value b d x < slot_value b d y"
    by (simp add: slot_value_less)
next
  show "sorted_wrt (<) SLOT_HOURS" unfolding SLOT_HOURS_eq by (rule sorted_wrt_upt)
qed

lemma slot_grid_unfold:
  "lo < 365 \<Longrightarrow> slot_grid b lo = map (slot_value b lo) SLOT_HOURS @ slot_grid b (lo + 1)"
  by (simp add: slot_grid_def upt_conv_Cons)

lemma in_slot_grid:
  "t \<in> set (slot_grid b lo) \<longleftrightarrow> (\<exists>d h. lo \<le> d \<and> d < 365 \<and> h \<in> set SLOT_HOURS \<and> t = slot_value b d h)"
  by (auto simp: slot_grid_def)

lemma sorted_slot_grid: "sorted_wrt (<) (slot_grid b lo)"
proof (induction "365 - lo" arbitrary: lo)
  case 0
  then show ?case by (simp add: slot_grid_def)
next
  case (Suc k)
  then have lt: "lo < 365" and k: "k = 365 - (lo + 1)" by simp_all
  have cross: "x < y" if "x \<in> set (map (slot_value b lo) SLOT_HOURS)"
      "y \<in> set (slot_grid b (lo + 1))" for x y
  proof -
    from that(1) obtain h where h: "h \<in> set SLOT_HOURS" "x = slot_value b lo h"
      by auto
    from that(2) obtain d' h' where d': "lo + 1 \<le> d'" "h' \<in> set SLOT_HOURS"
        "y = slot_value b d' h'"
      by (auto simp: in_slot_grid)
    from d'(1) show ?thesis unfolding h(2) d'(3) by (simp add: slot_value_less [OF h(1) d'(2)])
  qed
  show ?case
    unfolding slot_grid_unfold [OF lt] sorted_wrt_append
    using sorted_slot_day Suc.hyps(1) [OF k] cross by blast
qed

lemma on_slot_grid_slot_value:
  assumes "h \<in> set SLOT_HOURS"
  shows "on_slot_grid (slot_value b d h)"
proof -
  from assms have h: "h < 24" by (simp add: hours_bound)
  from local_mod_day [OF h, of b d] assms show ?thesis
    unfolding on_slot_grid_def slot_value_wall [OF assms] slot_wall_def by auto
qed

text \<open>Every instant of the grid that lies after now is a slot of some day offset.\<close>

lemma grid_instant_is_slot_value:
  assumes "now < t" "on_slot_grid t"
  shows "\<exists>d h. h \<in> set SLOT_HOURS \<and> t = slot_value ((now + calcOffset now) div MS_PER_DAY) d h"
proof -
  from assms(2) obtain h where h: "h \<in> set SLOT_HOURS"
      "(t + calcOffset t) mod MS_PER_DAY = int h * MS_PER_HOUR"
    by (auto simp: on_slot_grid_def)
  define b where "b = (now + calcOffset now) div MS_PER_DAY"
  define D where "D = (t + calcOffset t) div MS_PER_DAY"
  from assms(1) have "now + calcOffset now \<le> t + calcOffset t" by (intro wall_mono) simp
  then have "b \<le> D" unfolding b_def D_def
    using ms_facts(5) by (intro zdiv_mono1) simp_all
  then obtain d where d: "D = b + int d"
    by (metis zle_iff_zadd)
  have wall: "t + calcOffset t = slot_wall b d h"
    unfolding slot_wall_def d [symmetric] D_def h(2) [symmetric] by simp
  have "wall_offset (slot_wall b d h) = calcOffset t"
    unfolding wall [symmetric] by (rule calcOffset_wall)
  with wall have "t = slot_value b d h"
    unfolding slot_value_def by simp
  with h(1) show ?thesis unfolding b_def by blast
qed

section \<open>The slot allocator: the calendar functions on a regular host\<close>

lemma regular_hostD:
  assumes "regular_host H"
  shows "local_time H (utc_time H l) div MS_PER_DAY = l div MS_PER_DAY"
    and "nat ((l mod MS_PER_DAY) div MS_PER_HOUR) \<in> set SLOT_HOURS \<Longrightarrow> local_time H (utc_time H l) = l"
  using assms unfolding regular_host_def by blast+

lemma fixed_offset_host_regular: "regular_host (fixed_offset_host offset)"
  by (simp add: regular_host_def fixed_offset_host_def)

text \<open>A wall clock within the hour \<open>hour\<close> of the day \<open>n\<close>: its hour, and its parts.\<close>

lemma hour_of_wall:
  assumes "hour < 24" "0 \<le> r" "r < MS_PER_HOUR"
  shows "nat (((n * MS_PER_DAY + int hour * MS_PER_HOUR + r) mod MS_PER_DAY) div MS_PER_HOUR) = hour"
proof -
  have "0 \<le> int hour * MS_PER_HOUR + r" "int hour * MS_PER_HOUR + r < MS_PER_DAY"
    using assms by (simp_all add: MS_PER_DAY_def MS_PER_HOUR_def)
  then have "(n * MS_PER_DAY + (int hour * MS_PER_HOUR + r)) mod MS_PER_DAY = int hour * MS_PER_HOUR + r"
    by simp
  moreover have "(int hour * MS_PER_HOUR + r) div MS_PER_HOUR = int hour"
    using assms(2,3) ms_facts(4) by simp
  ultimately show ?thesis by (simp add: add.assoc)
qed

lemma floor_unit:
  assumes "u dvd b" "0 \<le> r" "r < u"
  shows "(b + r) div u * u = (b :: int)" "(b + r) mod u = r"
proof -
  from assms(1) obtain k where k: "b = k * u" by (metis dvd_def mult.commute)
  from assms(2,3) have "0 < u" by simp
  with assms(2,3) show "(b + r) div u * u = b" "(b + r) mod u = r"
    unfolding k by simp_all
qed

lemma time_fields_sum:
  "a + (d mod MS_PER_DAY) div MS_PER_HOUR * MS_PER_HOUR
     + (d mod MS_PER_HOUR) div MS_PER_MINUTE * MS_PER_MINUTE
     + (d mod MS_PER_MINUTE) div MS_PER_SECOND * MS_PER_SECOND
     + d mod MS_PER_SECOND = a + d mod MS_PER_DAY"
proof -
  have h: "(d mod MS_PER_DAY) mod MS_PER_HOUR = d mod MS_PER_HOUR"
    by (rule mod_mod_cancel) (simp add: ms_facts(1))
  have m: "(d mod MS_PER_HOUR) mod MS_PER_MINUTE = d mod MS_PER_MINUTE"
    by (rule mod_mod_cancel) (simp add: ms_facts(2))
  have s: "(d mod MS_PER_MINUTE) mod MS_PER_SECOND = d mod MS_PER_SECOND"
    by (rule mod_mod_cancel) (simp add: ms_facts(6))
  have "d mod MS_PER_DAY = (d mod MS_PER_DAY) div MS_PER_HOUR * MS_PER_HOUR + d mod MS_PER_HOUR"
    using div_mult_mod_eq [of "d mod MS_PER_DAY" MS_PER_HOUR] unfolding h by simp
  moreover have "d mod MS_PER_HOUR = (d mod MS_PER_HOUR) div MS_PER_MINUTE * MS_PER_MINUTE + d mod MS_PER_MINUTE"
    using div_mult_mod_eq [of "d mod MS_PER_HOUR" MS_PER_MINUTE] unfolding m by simp
  moreover have "d mod MS_PER_MINUTE = (d mod MS_PER_MINUTE) div MS_PER_SECOND * MS_PER_SECOND + d mod MS_PER_SECOND"
    using div_mult_mod_eq [of "d mod MS_PER_MINUTE" MS_PER_SECOND] unfolding s by simp
  ultimately show ?thesis by linarith
qed

lemma toZonedTime_regular:
  assumes "regular_host H"
  shows "toZonedTime H t = utc_time H (t + calcOffset t)"
proof -
  define d where "d = t + calcOffset t"
  define r where "r = local_time H 0 mod MS_PER_DAY"
  have "0 \<le> r" "r < MS_PER_DAY" unfolding r_def using ms_facts(5) by simp_all
  then have "(d div MS_PER_DAY * MS_PER_DAY + r) div MS_PER_DAY = d div MS_PER_DAY"
    using ms_facts(5) by simp
  then have day: "local_time H (setFullYear H 0 (d div MS_PER_DAY)) div MS_PER_DAY = d div MS_PER_DAY"
    unfolding setFullYear_def r_def regular_hostD(1) [OF assms] .
  have "toZonedTime H t =
      setHours4 H (setFullYear H 0 (d div MS_PER_DAY)) ((d mod MS_PER_DAY) div MS_PER_HOUR)
        ((d mod MS_PER_HOUR) div MS_PER_MINUTE) ((d mod MS_PER_MINUTE) div MS_PER_SECOND)
        (d mod MS_PER_SECOND)"
    unfolding toZonedTime_def tzParseTimezone_def Let_def d_def by simp
  also have "\<dots> = utc_time H (d div MS_PER_DAY * MS_PER_DAY + d mod MS_PER_DAY)"
    unfolding setHours4_def day time_fields_sum ..
  also have "\<dots> = utc_time H d" by simp
  finally show ?thesis unfolding d_def .
qed

lemma startOfDay_regular:
  assumes "regular_host H"
  shows "local_time H (startOfDay H (toZonedTime H now)) div MS_PER_DAY = (now + calcOffset now) div MS_PER_DAY"
proof -
  have "startOfDay H (toZonedTime H now) = utc_time H (((now + calcOffset now) div MS_PER_DAY) * MS_PER_DAY)"
    unfolding startOfDay_def setHours4_def toZonedTime_regular [OF assms] regular_hostD(1) [OF assms]
    by simp
  then show ?thesis using ms_facts(5) by (simp add: regular_hostD(1) [OF assms])
qed

lemma addDays_regular:
  assumes "regular_host H" "local_time H day div MS_PER_DAY = n"
  shows "local_time H (addDays H day d) div MS_PER_DAY = n + int d"
proof (cases "d = 0")
  case True
  with assms(2) show ?thesis by (simp add: addDays_def)
next
  case False
  have "(local_time H day + int d * MS_PER_DAY) div MS_PER_DAY = n + int d"
    using ms_facts(5) assms(2) by simp
  with False show ?thesis
    by (simp add: addDays_def setDate_plus_def regular_hostD(1) [OF assms(1)])
qed

lemma set_hours_regular:
  assumes "regular_host H" "local_time H day div MS_PER_DAY = n" "hour \<in> set SLOT_HOURS"
  shows "local_time H (set_hours H day hour) = n * MS_PER_DAY + int hour * MS_PER_HOUR"
proof -
  from assms(3) have h: "hour < 24" by (simp add: hours_bound)
  define b where "b = n * MS_PER_DAY + int hour * MS_PER_HOUR"
  have b_hour: "b = (n * 24 + int hour) * MS_PER_HOUR"
    unfolding b_def by (simp add: ms_facts(1) algebra_simps)
  have dvd: "MS_PER_HOUR dvd b" "MS_PER_MINUTE dvd b" "MS_PER_SECOND dvd b"
    unfolding b_hour by (simp_all add: ms_facts(2,6))
  have exists: "local_time H (utc_time H (b + r)) = b + r" if "0 \<le> r" "r < MS_PER_HOUR" for r
    unfolding b_def by (rule regular_hostD(2) [OF assms(1)]) (simp add: hour_of_wall [OF h that] assms(3))
  define r1 where "r1 = local_time H day mod MS_PER_HOUR"
  define r2 where "r2 = (b + r1) mod MS_PER_MINUTE"
  define r3 where "r3 = (b + r2) mod MS_PER_SECOND"
  have r1: "0 \<le> r1" "r1 < MS_PER_HOUR" unfolding r1_def using ms_facts(4) by simp_all
  have r2: "0 \<le> r2" "r2 < MS_PER_MINUTE" unfolding r2_def using ms_facts(3) by simp_all
  have r3: "0 \<le> r3" "r3 < MS_PER_SECOND" unfolding r3_def using ms_facts(7) by simp_all
  from r2 have r2': "r2 < MS_PER_HOUR" by (simp add: ms_facts(2))
  from r3 have r3': "r3 < MS_PER_MINUTE" "r3 < MS_PER_HOUR" by (simp_all add: ms_facts(2,6))
  have s1: "setHours H day (int hour) = utc_time H (b + r1)"
    unfolding setHours_def Let_def assms(2) b_def r1_def ..
  have s2: "setMinutes H (utc_time H (b + r1)) 0 = utc_time H (b + r2)"
    unfolding setMinutes_def Let_def exists [OF r1] floor_unit(1) [OF dvd(1) r1] r2_def by simp
  have s3: "setSeconds H (utc_time H (b + r2)) 0 = utc_time H (b + r3)"
    unfolding setSeconds_def Let_def exists [OF r2(1) r2'] floor_unit(1) [OF dvd(2) r2] r3_def by simp
  have s4: "setMilliseconds H (utc_time H (b + r3)) 0 = utc_time H (b + 0)"
    unfolding setMilliseconds_def Let_def exists [OF r3(1) r3'(2)] floor_unit(1) [OF dvd(3) r3] by simp
  have "set_hours H day hour = utc_time H (b + 0)"
    unfolding set_hours_def s1 s2 s3 s4 ..
  then show ?thesis
    using exists [of 0] ms_facts(4) unfolding b_def by simp
qed

text \<open>Whatever the first guess, \<open>fixOffset\<close> finds the offset of a wall clock that the zone
  did not skip; so \<open>fromZonedTime\<close> depends on the host only through the fields it reads.\<close>

lemma fixOffset_wall:
  assumes "l < DUBAI_LMT_END + DUBAI_LMT_OFFSET_MS \<or> DUBAI_LMT_END + DUBAI_OFFSET_MS \<le> l"
  shows "fixOffset l (calcOffset x) = wall_offset l"
  using assms unfolding fixOffset_def calcOffset_def wall_offset_def Let_def
  by (auto simp: DUBAI_LMT_END_def DUBAI_LMT_OFFSET_MS_def DUBAI_OFFSET_MS_def MS_PER_HOUR_def)

lemma fromZonedTime_wall:
  assumes "local_time H x = l"
    "l < DUBAI_LMT_END + DUBAI_LMT_OFFSET_MS \<or> DUBAI_LMT_END + DUBAI_OFFSET_MS \<le> l"
  shows "fromZonedTime H x = l - wall_offset l"
  unfolding fromZonedTime_def tzParseTimezone_def Let_def assms(1)
  by (simp add: fixOffset_wall [OF assms(2)])

lemma slot_at_regular:
  assumes "regular_host H" "hour \<in> set SLOT_HOURS"
  shows "slot_at H (startOfDay H (toZonedTime H now)) d hour
       = slot_value ((now + calcOffset now) div MS_PER_DAY) d hour"
proof -
  define b where "b = (now + calcOffset now) div MS_PER_DAY"
  have base: "local_time H (startOfDay H (toZonedTime H now)) div MS_PER_DAY = b"
    unfolding b_def by (rule startOfDay_regular [OF assms(1)])
  have day: "local_time H (addDays H (startOfDay H (toZonedTime H now)) d) div MS_PER_DAY = b + int d"
    by (rule addDays_regular [OF assms(1) base])
  have loc: "local_time H (set_hours H (addDays H (startOfDay H (toZonedTime H now)) d) hour)
      = slot_wall b d hour"
    unfolding slot_wall_def by (rule set_hours_regular [OF assms(1) day assms(2)])
  from fromZonedTime_wall [OF loc slot_wall_exists [OF assms(2)]] show ?thesis
    unfolding slot_at_def slot_value_def b_def .
qed

lemma grid_regular:
  assumes "regular_host H"
  shows "grid H (startOfDay H (toZonedTime H now)) lo = slot_grid ((now + calcOffset now) div MS_PER_DAY) lo"
  unfolding grid_def slot_grid_def day_slots_def
  by (simp add: slot_at_regular [OF assms] cong: map_cong)

lemma formatInTimeZone_regular:
  assumes "regular_host H" "hour \<in> set SLOT_HOURS"
  shows "formatInTimeZone H (slot_value n d hour) = (n + int d, int hour, 0)"
proof -
  from assms(2) have h: "hour < 24" by (simp add: hours_bound)
  define w where "w = (n + int d) * MS_PER_DAY + int hour * MS_PER_HOUR"
  have "local_time H (toZonedTime H (slot_value n d hour)) = w"
    unfolding toZonedTime_regular [OF assms(1)] slot_value_wall [OF assms(2)] slot_wall_def w_def
    using hour_of_wall [OF h, of 0 "n + int d"] ms_facts(4) assms(2)
    by (intro regular_hostD(2) [OF assms(1)]) simp
  moreover have "w div MS_PER_DAY = n + int d" "w mod MS_PER_DAY = int hour * MS_PER_HOUR"
    "w mod MS_PER_HOUR = 0"
    unfolding w_def by (rule local_div_day [OF h] local_mod_day [OF h] local_mod_hour)+
  ultimately show ?thesis
    using ms_facts(4) unfolding formatInTimeZone_def Let_def by simp
qed

lemma slot_grid_keys_inj:
  assumes "regular_host H"
  shows "inj_on (formatInTimeZone H) (set (slot_grid b lo))"
proof (rule inj_onI)
  fix x y
  assume x: "x \<in> set (slot_grid b lo)" and y: "y \<in> set (slot_grid b lo)"
    and eq: "formatInTimeZone H x = formatInTimeZone H y"
  from x obtain d h where dh: "h \<in> set SLOT_HOURS" "x = slot_value b d h"
    by (auto simp: in_slot_grid)
  from y obtain d' h' where dh': "h' \<in> set SLOT_HOURS" "y = slot_value b d' h'"
    by (auto simp: in_slot_grid)
  from eq show "x = y"
    unfolding dh(2) dh'(2)
      formatInTimeZone_regular [OF assms dh(1)] formatInTimeZone_regular [OF assms dh'(1)]
    by simp
qed

lemma dubai_host_regular: "regular_host dubai_host"
  unfolding dubai_host_def by (rule fixed_offset_host_regular)

text \<open>A host with daylight saving whose clock moves forward at midnight is regular.\<close>

lemma day_number:
  assumes "n * MS_PER_DAY \<le> l" "l < n * MS_PER_DAY + MS_PER_DAY"
  shows "l div MS_PER_DAY = n"
proof -
  define r where "r = l - n * MS_PER_DAY"
  from assms have "0 \<le> r" "r < MS_PER_DAY" unfolding r_def by simp_all
  then have "r div MS_PER_DAY = 0" by simp
  moreover have "l = r + n * MS_PER_DAY" unfolding r_def by simp
  ultimately show ?thesis using ms_facts(5) by simp
qed

lemma cairo_local_utc:
  "local_time cairo_host (utc_time cairo_host l) =
     (if 19839 * MS_PER_DAY \<le> l \<and> l < 19839 * MS_PER_DAY + MS_PER_HOUR
      then l + MS_PER_HOUR else l)"
  by (simp add: cairo_host_def jump_host_def MS_PER_HOUR_def MS_PER_DAY_def)

lemma cairo_host_regular: "regular_host cairo_host"
  unfolding regular_host_def
proof (intro conjI allI impI)
  fix l :: int
  show "local_time cairo_host (utc_time cairo_host l) div MS_PER_DAY = l div MS_PER_DAY"
  proof (cases "19839 * MS_PER_DAY \<le> l \<and> l < 19839 * MS_PER_DAY + MS_PER_HOUR")
    case True
    then have "19839 * MS_PER_DAY \<le> l" "l < 19839 * MS_PER_DAY + MS_PER_DAY"
      "19839 * MS_PER_DAY \<le> l + MS_PER_HOUR" "l + MS_PER_HOUR < 19839 * MS_PER_DAY + MS_PER_DAY"
      by (simp_all add: MS_PER_DAY_def MS_PER_HOUR_def)
    then have "l div MS_PER_DAY = 19839" "(l + MS_PER_HOUR) div MS_PER_DAY = 19839"
      by (auto intro: day_number)
    with True show ?thesis unfolding cairo_local_utc by simp
  next
    case False
    then show ?thesis unfolding cairo_local_utc by (simp only: if_False)
  qed
next
  fix l :: int
  assume hour: "nat ((l mod MS_PER_DAY) div MS_PER_HOUR) \<in> set SLOT_HOURS"
  have "\<not> (19839 * MS_PER_DAY \<le> l \<and> l < 19839 * MS_PER_DAY + MS_PER_HOUR)"
  proof
    assume gap: "19839 * MS_PER_DAY \<le> l \<and> l < 19839 * MS_PER_DAY + MS_PER_HOUR"
    define r where "r = l - 19839 * MS_PER_DAY"
    from gap have r: "0 \<le> r" "r < MS_PER_HOUR" unfolding r_def by simp_all
    then have "r < MS_PER_DAY" by (simp add: MS_PER_DAY_def MS_PER_HOUR_def)
    with r(1) have "(19839 * MS_PER_DAY + r) mod MS_PER_DAY = r" by simp
    moreover have "l = 19839 * MS_PER_DAY + r" unfolding r_def by simp
    ultimately have "(l mod MS_PER_DAY) div MS_PER_HOUR = 0" using r by simp
    with hour show False by (simp add: hours_bound)
  qed
  then show "local_time cairo_host (utc_time cairo_host l) = l"
    unfolding cairo_local_utc by (simp only: if_False)
qed

section \<open>The slot allocator: the claims\<close>

lemma getNextScheduleSlot_example:
  "getNextScheduleSlot dubai_host [example_tweet 1728000000000, example_tweet 1728003600000] 1727998200000
     = Inr 1728007200000"
  by code_simp

text \<open>On the host whose clock skips the hour after midnight of the 26th of April 2024, asked
  at that midnight of \<open>Asia/Dubai\<close>, with the hour 5 taken.\<close>

lemma getNextScheduleSlots_example:
  "getNextScheduleSlots cairo_host [example_tweet 1714093200000] 3 1714075200000
     = Inr [1714089600000, 1714096800000, 1714100400000]"
  by code_simp

lemma taken_keys: "getTakenSlotKeys H tweets = set (map (\<lambda>tw. formatInTimeZone H (scheduledFor tw)) tweets)"
  by (simp add: getTakenSlotKeys_def)

text \<open>
  Claim C4, on every host. When \<open>getNextScheduleSlot\<close> returns an instant, that instant is
  the one every call with the same host, the same tweets and the same now returns; it is
  strictly after now; and its slot key is not among the slot keys of the existing tweets.
  On a regular host it moreover lies on the hourly grid of \<open>Asia/Dubai\<close>, at one of the
  hours 4 to 19 and at minute zero, and no instant of the grid that is after now and whose
  key is free is earlier.
\<close>

theorem getNextScheduleSlot_postcondition:
  assumes "getNextScheduleSlot H tweets now = Inr s"
  shows "(\<forall>s'. getNextScheduleSlot H tweets now = Inr s' \<longrightarrow> s' = s)
       \<and> now < s
       \<and> formatInTimeZone H s \<notin> set (map (\<lambda>tw. formatInTimeZone H (scheduledFor tw)) tweets)
       \<and> (regular_host H \<longrightarrow>
            on_slot_grid s
          \<and> (\<exists>hour. 4 \<le> hour \<and> hour \<le> 19 \<and> snd (formatInTimeZone H s) = (hour, 0))
          \<and> (\<forall>t. now < t \<and> on_slot_grid t
                 \<and> formatInTimeZone H t \<notin> set (map (\<lambda>tw. formatInTimeZone H (scheduledFor tw)) tweets)
               \<longrightarrow> s \<le> t))"
proof -
  define b where "b = (now + calcOffset now) div MS_PER_DAY"
  define taken where "taken = getTakenSlotKeys H tweets"
  have taken: "taken = set (map (\<lambda>tw. formatInTimeZone H (scheduledFor tw)) tweets)"
    by (simp add: taken_def taken_keys)
  from assms have found:
    "find (free_slot H taken now) (grid H (startOfDay H (toZonedTime H now)) 0) = Some s"
    unfolding getNextScheduleSlot_find taken_def by (simp split: option.splits)
  then have free: "free_slot H taken now s"
    by (auto dest: find_Some_holds)
  have det: "\<forall>s'. getNextScheduleSlot H tweets now = Inr s' \<longrightarrow> s' = s"
    using assms by simp
  have after: "now < s" using free by (simp add: free_slot_def)
  have untaken: "formatInTimeZone H s \<notin> taken" using free by (simp add: free_slot_def)
  have regular: "on_slot_grid s
      \<and> (\<exists>hour. 4 \<le> hour \<and> hour \<le> 19 \<and> snd (formatInTimeZone H s) = (hour, 0))
      \<and> (\<forall>t. now < t \<and> on_slot_grid t \<and> formatInTimeZone H t \<notin> taken \<longrightarrow> s \<le> t)"
    if reg: "regular_host H"
  proof -
    from found have found': "find (free_slot H taken now) (slot_grid b 0) = Some s"
      unfolding grid_regular [OF reg] b_def .
    then have mem: "s \<in> set (slot_grid b 0)" by (auto dest: find_Some_holds)
    then obtain d h where dh: "d < 365" "h \<in> set SLOT_HOURS" "s = slot_value b d h"
      by (auto simp: in_slot_grid)
    from dh(2) have h: "4 \<le> h" "h \<le> 19" "h < 24" by (simp_all add: hours_bound)
    have on_grid: "on_slot_grid s"
      unfolding dh(3) by (rule on_slot_grid_slot_value [OF dh(2)])
    have key: "\<exists>hour. 4 \<le> hour \<and> hour \<le> 19 \<and> snd (formatInTimeZone H s) = (hour, 0)"
      unfolding dh(3) formatInTimeZone_regular [OF reg dh(2)]
      using h(1,2) by (intro exI [of _ "int h"]) simp
    have least: "s \<le> t" if t: "now < t" "on_slot_grid t" "formatInTimeZone H t \<notin> taken" for t
    proof -
      from grid_instant_is_slot_value [OF t(1,2)] obtain d' h' where
        dh': "h' \<in> set SLOT_HOURS" "t = slot_value b d' h'"
        unfolding b_def by blast
      from dh'(1) have h': "h' < 24" by (simp add: hours_bound)
      show ?thesis
      proof (cases "d' < 365")
        case True
        with dh' have "t \<in> set (slot_grid b 0)" by (auto simp: in_slot_grid)
        moreover have "free_slot H taken now t" using t by (simp add: free_slot_def)
        ultimately show ?thesis using find_sorted_least [OF sorted_slot_grid found'] by blast
      next
        case False
        with dh(1) have "d < d'" by simp
        then have "s < t" unfolding dh(3) dh'(2) by (simp add: slot_value_less [OF dh(2) dh'(1)])
        then show ?thesis by simp
      qed
    qed
    from on_grid key least show ?thesis by blast
  qed
  from det after untaken regular show ?thesis unfolding taken by blast
qed

theorem getNextScheduleSlot_postcondition_witness:
  "regular_host dubai_host
   \<and> getNextScheduleSlot dubai_host [example_tweet 1728000000000, example_tweet 1728003600000] 1727998200000
     = Inr 1728007200000
   \<and> (1727998200000 :: int) < 1728007200000
   \<and> on_slot_grid 1728007200000
   \<and> formatInTimeZone dubai_host 1728007200000 \<notin> set (map (\<lambda>tw. formatInTimeZone dubai_host (scheduledFor tw))
        [example_tweet 1728000000000, example_tweet 1728003600000])"
  using getNextScheduleSlot_postcondition [OF getNextScheduleSlot_example]
    getNextScheduleSlot_example dubai_host_regular by blast

text \<open>
  The claim does not hold on every host. On a host whose wall clock skips the 30th of
  December 2011, asked at 2011-12-29T15:00:00Z (19:00 in \<open>Asia/Dubai\<close>) with no existing
  tweets, \<open>getNextScheduleSlot\<close> returns 2011-12-31T00:00:00Z, the hour 4 of the 31st in
  \<open>Asia/Dubai\<close>, although the hour 4 of the 30th, 2011-12-30T00:00:00Z, is after now, on the
  grid, free, and earlier: \<open>addDays\<close> cannot name the 30th on that host and lands on the 31st.
\<close>

theorem skipped_day_not_earliest_counterexample:
  "getNextScheduleSlot apia_host [] 1325170800000 = Inr 1325289600000
   \<and> (1325170800000 :: int) < 1325203200000
   \<and> on_slot_grid 1325203200000
   \<and> formatInTimeZone apia_host 1325203200000 \<notin> set (map (\<lambda>tw. formatInTimeZone apia_host (scheduledFor tw)) [])
   \<and> \<not> (1325289600000 :: int) \<le> 1325203200000"
  by code_simp

text \<open>
  Claim C5, on every host. When \<open>getNextScheduleSlots\<close> returns, it returns exactly \<open>cnt\<close>
  instants; each is strictly after now and none of their slot keys is the slot key of an
  existing tweet. On a regular host the instants are moreover pairwise distinct and so are
  their slot keys.
\<close>

theorem getNextScheduleSlots_distinct:
  assumes "getNextScheduleSlots H tweets cnt now = Inr slots"
  shows "length slots = cnt
       \<and> (\<forall>s\<in>set slots. now < s)
       \<and> (\<forall>s\<in>set slots. formatInTimeZone H s \<notin> set (map (\<lambda>tw. formatInTimeZone H (scheduledFor tw)) tweets))
       \<and> (regular_host H \<longrightarrow>
            distinct slots \<and> distinct (map (formatInTimeZone H) slots))"
proof -
  define b where "b = (now + calcOffset now) div MS_PER_DAY"
  define taken where "taken = getTakenSlotKeys H tweets"
  define free where "free = filter (free_slot H taken now) (grid H (startOfDay H (toZonedTime H now)) 0)"
  have taken: "taken = set (map (\<lambda>tw. formatInTimeZone H (scheduledFor tw)) tweets)"
    by (simp add: taken_def taken_keys)
  from assms have slots: "slots = take cnt free" and enough: "\<not> length (take cnt free) < cnt"
    unfolding getNextScheduleSlots_take taken_def free_def
    by (auto simp: Let_def split: if_splits)
  from enough have len: "length slots = cnt" unfolding slots by simp
  have sub: "set slots \<subseteq> set free" unfolding slots by (rule set_take_subset)
  then have free: "\<forall>s\<in>set slots. free_slot H taken now s" unfolding free_def by auto
  have regular: "distinct slots \<and> distinct (map (formatInTimeZone H) slots)"
    if reg: "regular_host H"
  proof -
    have free_eq: "free = filter (free_slot H taken now) (slot_grid b 0)"
      unfolding free_def grid_regular [OF reg] b_def ..
    have sorted: "sorted_wrt (<) slots"
      unfolding slots free_eq by (rule sorted_wrt_take_filter [OF sorted_slot_grid])
    then have dist: "distinct slots" by (rule sorted_wrt_less_distinct)
    from sub have "set slots \<subseteq> set (slot_grid b 0)" unfolding free_eq by auto
    then have "inj_on (formatInTimeZone H) (set slots)"
      by (rule inj_on_subset [OF slot_grid_keys_inj [OF reg]])
    with dist have "distinct (map (formatInTimeZone H) slots)" by (simp add: distinct_map)
    with dist show ?thesis by simp
  qed
  from len free regular show ?thesis unfolding taken by (simp add: free_slot_def)
qed

theorem getNextScheduleSlots_distinct_witness:
  "regular_host cairo_host
   \<and> getNextScheduleSlots cairo_host [example_tweet 1714093200000] 3 1714075200000
     = Inr [1714089600000, 1714096800000, 1714100400000]
   \<and> length [1714089600000, 1714096800000, 1714100400000 :: int] = 3
   \<and> distinct [1714089600000, 1714096800000, 1714100400000 :: int]
   \<and> distinct (map (formatInTimeZone cairo_host) [1714089600000, 1714096800000, 1714100400000])"
  using getNextScheduleSlots_distinct [OF getNextScheduleSlots_example]
    getNextScheduleSlots_example cairo_host_regular by blast

text \<open>
  The claim does not hold on every host. On a host whose wall clock skips the 30th of
  December 2011, asked at 2011-12-29T14:30:00Z for 18 slots with no existing tweets,
  \<open>getNextScheduleSlots\<close> returns the instant 2011-12-31T00:00:00Z twice, as its second and
  as its last element: the day offsets 1 and 2 both land on the 31st.
\<close>

theorem skipped_day_duplicate_slot_counterexample:
  "getNextScheduleSlots apia_host [] 18 1325169000000 =
     Inr [1325170800000, 1325289600000, 1325293200000, 1325296800000, 1325300400000,
          1325304000000, 1325307600000, 1325311200000, 1325314800000, 1325318400000,
          1325322000000, 1325325600000, 1325329200000, 1325332800000, 1325336400000,
          1325340000000, 1325343600000, 1325289600000]
   \<and> \<not> distinct [1325170800000, 1325289600000, 1325293200000, 1325296800000, 1325300400000,
          1325304000000, 1325307600000, 1325311200000, 1325314800000, 1325318400000,
          1325322000000, 1325325600000, 1325329200000, 1325332800000, 1325336400000,
          1325340000000, 1325343600000, 1325289600000 :: int]"
  by code_simp

text \<open>
  Claim C10. On every host the scalar and the bulk allocator agree: when
  \<open>getNextScheduleSlot\<close> returns \<open>s\<close>, \<open>getNextScheduleSlots\<close> with count 1 returns the
  one-element list of \<open>s\<close>, and when it throws, so does the bulk call; and the other way
  round.
\<close>

theorem scalar_bulk_agree:
  "(case getNextScheduleSlot H tweets now of
      Inr s \<Rightarrow> getNextScheduleSlots H tweets 1 now = Inr [s]
    | Inl e \<Rightarrow> isl (getNextScheduleSlots H tweets 1 now))
   \<and> (case getNextScheduleSlots H tweets 1 now of
      Inr slots \<Rightarrow> (case slots of [s] \<Rightarrow> getNextScheduleSlot H tweets now = Inr s | _ \<Rightarrow> False)
    | Inl e \<Rightarrow> isl (getNextScheduleSlot H tweets now))"
proof -
  define free where "free = filter (free_slot H (getTakenSlotKeys H tweets) now)
             (grid H (startOfDay H (toZonedTime H now)) 0)"
  have f: "find (free_slot H (getTakenSlotKeys H tweets) now)
             (grid H (startOfDay H (toZonedTime H now)) 0) =
           (case free of [] \<Rightarrow> None | s # _ \<Rightarrow> Some s)"
    unfolding free_def by (rule find_as_filter)
  show ?thesis
    unfolding getNextScheduleSlot_find getNextScheduleSlots_take f free_def [symmetric]
    by (cases free) (simp_all add: Let_def)
qed

theorem scalar_bulk_agree_witness:
  "getNextScheduleSlots dubai_host [example_tweet 1728000000000, example_tweet 1728003600000] 1 1727998200000
     = Inr [1728007200000]"
  using scalar_bulk_agree [of dubai_host "[example_tweet 1728000000000, example_tweet 1728003600000]"
      1727998200000] getNextScheduleSlot_example
  by simp

section \<open>The publication coordinator: the lock phase\<close>

lemma update_doc_exists:
  "tweet_docs w tweetRef = Some d \<Longrightarrow>
   update_doc w tweetRef payload =
     Inr (w\<lparr>tweet_docs := (tweet_docs w)(tweetRef \<mapsto> fold (apply_field (serverTime w)) payload d),
            effects := effects w @ [DocUpdate tweetRef payload]\<rparr>)"
  by (simp add: update_doc_def)

lemma sweep_lock_skip:
  "tweet_docs w tweetRef = Some current \<Longrightarrow>
   doc_status current = Processing \<or> doc_status current = Posted \<Longrightarrow>
   sweep_lock w tweetRef = Inr (False, w)"
  by (auto simp: sweep_lock_def)

lemma sweep_lock_acquire:
  "tweet_docs w tweetRef = Some current \<Longrightarrow>
   doc_status current \<noteq> Processing \<Longrightarrow> doc_status current \<noteq> Posted \<Longrightarrow>
   sweep_lock w tweetRef =
     Inr (True, w\<lparr>tweet_docs := (tweet_docs w)(tweetRef \<mapsto>
              current\<lparr>doc_status := Processing, doc_lastUpdatedAt := Some (serverTime w),
                 doc_lastError := None\<rparr>),
            effects := effects w @ [DocUpdate tweetRef lock_fields]\<rparr>)"
  by (simp add: sweep_lock_def update_doc_exists lock_fields_def)

text \<open>
  Claim C2. In the sweep path, when the status read inside the lock transaction is
  \<open>processing\<close> or \<open>posted\<close>, the attempt writes nothing, has no other effect and
  returns normally (skip). For every other status the transaction writes
  \<open>status = processing\<close>, clears \<open>lastError\<close> and stamps \<open>lastUpdatedAt\<close>, and the publish
  pipeline continues from the world that holds this write.
\<close>

theorem sweep_lock_phase:
  assumes "tweet_docs w tweetRef = Some current"
  shows "(doc_status current = Processing \<or> doc_status current = Posted \<longrightarrow>
            sweep_lock w tweetRef = Inr (False, w)
          \<and> processTweetDocument sv tweetRef data w = (Inr (), w))
       \<and> (doc_status current \<noteq> Processing \<and> doc_status current \<noteq> Posted \<longrightarrow>
            (let w1 = w\<lparr>tweet_docs := (tweet_docs w)(tweetRef \<mapsto>
                          current\<lparr>doc_status := Processing,
                             doc_lastUpdatedAt := Some (serverTime w), doc_lastError := None\<rparr>),
                        effects := effects w @
                          [DocUpdate tweetRef
                             [SetStatus Processing, SetLastUpdatedAtServerTimestamp,
                              SetLastError None]]\<rparr>
             in sweep_lock w tweetRef = Inr (True, w1)
              \<and> processTweetDocument sv tweetRef data w = sweep_publish sv tweetRef data w1))"
proof (intro conjI impI)
  assume skip: "doc_status current = Processing \<or> doc_status current = Posted"
  show "sweep_lock w tweetRef = Inr (False, w)"
    by (rule sweep_lock_skip [OF assms skip])
  then show "processTweetDocument sv tweetRef data w = (Inr (), w)"
    by (simp add: processTweetDocument_def)
next
  assume other: "doc_status current \<noteq> Processing \<and> doc_status current \<noteq> Posted"
  then have "sweep_lock w tweetRef =
     Inr (True, w\<lparr>tweet_docs := (tweet_docs w)(tweetRef \<mapsto>
              current\<lparr>doc_status := Processing, doc_lastUpdatedAt := Some (serverTime w),
                 doc_lastError := None\<rparr>),
            effects := effects w @ [DocUpdate tweetRef lock_fields]\<rparr>)"
    using sweep_lock_acquire [OF assms] by blast
  then show "let w1 = w\<lparr>tweet_docs := (tweet_docs w)(tweetRef \<mapsto>
                          current\<lparr>doc_status := Processing,
                             doc_lastUpdatedAt := Some (serverTime w), doc_lastError := None\<rparr>),
                        effects := effects w @
                          [DocUpdate tweetRef
                             [SetStatus Processing, SetLastUpdatedAtServerTimestamp,
                              SetLastError None]]\<rparr>
             in sweep_lock w tweetRef = Inr (True, w1)
              \<and> processTweetDocument sv tweetRef data w = sweep_publish sv tweetRef data w1"
    by (simp add: processTweetDocument_def lock_fields_def Let_def)
qed

lemma example_world_doc: "tweet_docs (example_world s) ''t1'' = Some (example_doc s)"
  by (simp add: example_world_def)

theorem sweep_lock_phase_witness:
  "processTweetDocument example_services ''t1'' (example_doc Scheduled) (example_world Posted)
     = (Inr (), example_world Posted)
   \<and> sweep_lock (example_world Posted) ''t1'' = Inr (False, example_world Posted)
   \<and> (\<exists>w1. sweep_lock (example_world Scheduled) ''t1'' = Inr (True, w1)
        \<and> effects w1 = [DocUpdate ''t1''
             [SetStatus Processing, SetLastUpdatedAtServerTimestamp, SetLastError None]]
        \<and> map_option doc_status (tweet_docs w1 ''t1'') = Some Processing)"
  using sweep_lock_phase [OF example_world_doc, of Posted example_services "example_doc Scheduled"]
    sweep_lock_phase [OF example_world_doc, of Scheduled example_services "example_doc Scheduled"]
  by (simp add: example_doc_def example_world_def Let_def)

lemma manual_lock_refuses:
  assumes "tweet_docs w tweetId = Some current" "doc_authorUid current = uid"
    "doc_status current \<noteq> Manual"
  shows "manual_lock w tweetId uid = Inl (HttpsError FailedPrecondition
     (if doc_status current = Processing then ''Tweet is already being processed.''
      else if doc_status current = Posted then ''Tweet has already been posted.''
      else if doc_status current = Draft then ''Draft tweets cannot be published.''
      else ''Tweet must be marked as manual before publishing.''))"
  using assms by (simp add: manual_lock_def)

text \<open>
  Claim C3. For an authenticated caller who is the author, a manual publish of an existing
  item whose status is not \<open>manual\<close> fails with \<open>failed-precondition\<close>; the world is
  unchanged: no write, \<open>lastError\<close> untouched, no post. On an item already \<open>posted\<close> the
  message says so.
\<close>

theorem manual_publish_precondition:
  assumes "trim raw = tweetId" "tweetId \<noteq> []"
    and "tweet_docs w tweetId = Some current"
    and "doc_authorUid current = uid"
    and "doc_status current \<noteq> Manual"
  shows "(\<exists>message. publishTweetNow sv (Some uid) (Some raw) w
            = (Inl (HttpsError FailedPrecondition message), w))
       \<and> effects (snd (publishTweetNow sv (Some uid) (Some raw) w)) = effects w
       \<and> tweet_docs (snd (publishTweetNow sv (Some uid) (Some raw) w)) tweetId = Some current
       \<and> (doc_status current = Posted \<longrightarrow>
            fst (publishTweetNow sv (Some uid) (Some raw) w)
              = Inl (HttpsError FailedPrecondition ''Tweet has already been posted.''))"
  using assms(1,2,3) manual_lock_refuses [OF assms(3,4,5)]
  by (simp add: publishTweetNow_def Let_def)

lemma trim_example: "trim '' t1 '' = ''t1''"
  by (simp add: trim_def is_white_space_def)

theorem manual_publish_precondition_witness:
  "(\<exists>message. publishTweetNow example_services (Some ''u1'') (Some '' t1 '') (example_world Draft)
       = (Inl (HttpsError FailedPrecondition message), example_world Draft))
   \<and> fst (publishTweetNow example_services (Some ''u1'') (Some '' t1 '') (example_world Posted))
       = Inl (HttpsError FailedPrecondition ''Tweet has already been posted.'')"
  using manual_publish_precondition [OF trim_example _ example_world_doc, of Draft "''u1''" example_services]
    manual_publish_precondition [OF trim_example _ example_world_doc, of Posted "''u1''" example_services]
  by (simp add: example_doc_def)

section \<open>The media upload orchestrator: lemmas and claims\<close>

lemma upload_item_calls:
  "c \<in> set (snd (upload_item sv client item)) \<Longrightarrow> is_media_upload_call c"
  by (auto simp: upload_item_def is_media_upload_call_def split: option.splits sum.splits if_splits)

lemma upload_item_ok_calls:
  "fst (upload_item sv client item) = Inr mediaId \<Longrightarrow> length (snd (upload_item sv client item)) = 1"
  by (auto simp: upload_item_def split: option.splits sum.splits if_splits)

lemma upload_loop_world:
  "upload_loop sv client attachments mediaIds w = (r, w1) \<Longrightarrow>
   \<exists>calls. w1 = w\<lparr>effects := effects w @ calls\<rparr> \<and> (\<forall>c\<in>set calls. is_media_upload_call c)"
proof (induction attachments arbitrary: mediaIds w)
  case Nil
  then show ?case by (auto intro: exI [of _ "[]"])
next
  case (Cons item attachments)
  obtain res calls where item: "upload_item sv client item = (res, calls)"
    by (cases "upload_item sv client item")
  then have calls: "\<forall>c\<in>set calls. is_media_upload_call c"
    using upload_item_calls [of _ sv client item] by simp
  show ?case
  proof (cases res)
    case (Inl e)
    with Cons.prems item have "w1 = w\<lparr>effects := effects w @ calls\<rparr>" by simp
    with calls show ?thesis by blast
  next
    case (Inr mediaId)
    with Cons.prems item have
      "upload_loop sv client attachments (mediaIds @ [mediaId]) (w\<lparr>effects := effects w @ calls\<rparr>) = (r, w1)"
      by simp
    from Cons.IH [OF this] obtain more where
      "w1 = w\<lparr>effects := effects w @ calls @ more\<rparr>" "\<forall>c\<in>set more. is_media_upload_call c"
      by auto
    with calls show ?thesis by (intro exI [of _ "calls @ more"]) auto
  qed
qed

lemma upload_loop_success:
  "upload_loop sv client attachments acc w = (Inr mediaIds, w1) \<Longrightarrow>
   \<exists>new. mediaIds = acc @ new \<and>
     list_all2 (\<lambda>item mediaId. fst (upload_item sv client item) = Inr mediaId) attachments new"
proof (induction attachments arbitrary: acc w)
  case Nil
  then show ?case by simp
next
  case (Cons item attachments)
  obtain res calls where item: "upload_item sv client item = (res, calls)"
    by (cases "upload_item sv client item")
  show ?case
  proof (cases res)
    case (Inl e)
    with Cons.prems item show ?thesis by simp
  next
    case (Inr mediaId)
    with Cons.prems item have
      "upload_loop sv client attachments (acc @ [mediaId]) (w\<lparr>effects := effects w @ calls\<rparr>)
         = (Inr mediaIds, w1)"
      by simp
    from Cons.IH [OF this] obtain new where
      "mediaIds = (acc @ [mediaId]) @ new"
      "list_all2 (\<lambda>item mediaId. fst (upload_item sv client item) = Inr mediaId) attachments new"
      by blast
    with item Inr show ?thesis by (intro exI [of _ "mediaId # new"]) simp
  qed
qed


lemma upload_loop_all_ok:
  "\<forall>item\<in>set attachments. \<exists>mediaId. fst (upload_item sv client item) = Inr mediaId \<Longrightarrow>
   \<exists>mediaIds w1. upload_loop sv client attachments acc w = (Inr mediaIds, w1)"
proof (induction attachments arbitrary: acc w)
  case Nil
  then show ?case by simp
next
  case (Cons item attachments)
  then obtain mediaId where "fst (upload_item sv client item) = Inr mediaId" by auto
  then obtain calls where "upload_item sv client item = (Inr mediaId, calls)"
    by (cases "upload_item sv client item") auto
  with Cons show ?case by simp
qed

lemma toMediaIdTuple_ok:
  "0 < length mediaIds \<Longrightarrow> length mediaIds \<le> 4 \<Longrightarrow> toMediaIdTuple mediaIds = Inr mediaIds"
  by (cases mediaIds rule: toMediaIdTuple.cases) auto

lemma uploadMediaAttachments_loop:
  "uploadMediaAttachments sv client (doc_media data) w = upload_loop sv client (take 4 (media_of data)) [] w"
  by (auto simp: uploadMediaAttachments_def media_of_def split: option.splits)

lemma uploadMediaAttachments_Some:
  "uploadMediaAttachments sv client (Some media_list) w = upload_loop sv client (take 4 media_list) [] w"
  by (cases media_list) (simp_all add: uploadMediaAttachments_def)


lemma upload_loop_success_effects:
  "upload_loop sv client attachments acc w = (Inr mediaIds, w1) \<Longrightarrow>
   w1 = w\<lparr>effects := effects w @ concat (map (\<lambda>item. snd (upload_item sv client item)) attachments)\<rparr>"
proof (induction attachments arbitrary: acc w)
  case Nil
  then show ?case by simp
next
  case (Cons item attachments)
  obtain res calls where item: "upload_item sv client item = (res, calls)"
    by (cases "upload_item sv client item")
  show ?case
  proof (cases res)
    case (Inl e)
    with Cons.prems item show ?thesis by simp
  next
    case (Inr mediaId)
    with Cons.prems item have
      "upload_loop sv client attachments (acc @ [mediaId]) (w\<lparr>effects := effects w @ calls\<rparr>)
         = (Inr mediaIds, w1)"
      by simp
    from Cons.IH [OF this] item show ?thesis by simp
  qed
qed

lemma upload_calls_count:
  "list_all2 (\<lambda>item mediaId. fst (upload_item sv client item) = Inr mediaId) attachments mediaIds \<Longrightarrow>
   length (filter is_media_upload_call
     (concat (map (\<lambda>item. snd (upload_item sv client item)) attachments))) = length mediaIds"
proof (induction rule: list_all2_induct)
  case Nil
  then show ?case by simp
next
  case (Cons item attachments mediaId mediaIds)
  from upload_item_ok_calls [OF Cons.hyps(1)] upload_item_calls [of _ sv client item]
  have "filter is_media_upload_call (snd (upload_item sv client item)) = snd (upload_item sv client item)"
    by (intro filter_True) blast
  with upload_item_ok_calls [OF Cons.hyps(1)] Cons.IH show ?case by simp
qed

lemma media_calls_no_tweet:
  "\<forall>c\<in>set calls. is_media_upload_call c \<Longrightarrow> filter is_tweet_call calls = []"
  by (induction calls) (auto simp: is_media_upload_call_def is_tweet_call_def split: effect.splits)

lemma update_doc_effects:
  "update_doc w tweetRef payload = Inr w1 \<Longrightarrow> effects w1 = effects w @ [DocUpdate tweetRef payload]"
  by (auto simp: update_doc_def split: option.splits)

lemma publish_after_upload:
  assumes "uploadMediaAttachments sv client (doc_media data) w = (Inr mediaIds, w1)"
    and "length mediaIds \<le> 4"
  shows "filter is_tweet_call (effects (snd (publishTweetWithClient sv client tweetRef data w)))
       = filter is_tweet_call (effects w1) @
           [TweetCall (if mediaIds = [] then TextOnly (doc_text data)
                       else WithMedia (doc_text data) mediaIds)]"
proof (cases "mediaIds = []")
  case True
  with assms(1) show ?thesis
    by (auto simp: publishTweetWithClient_def call_tweet_def markTweetPosted_def is_tweet_call_def
        split: sum.splits dest: update_doc_effects)
next
  case False
  with assms(2) have "toMediaIdTuple mediaIds = Inr mediaIds" by (simp add: toMediaIdTuple_ok)
  with False assms(1) show ?thesis
    by (auto simp: publishTweetWithClient_def call_tweet_def markTweetPosted_def is_tweet_call_def
        split: sum.splits dest: update_doc_effects)
qed

text \<open>
  Claim C6. When the uploads succeed, the handles are those of the first four attachments, in
  their order: with 0 attachments there is no handle and the post call is text-only; with 1
  to 4 attachments there are as many handles and the post call carries exactly this tuple;
  beyond four, the first four only are uploaded and attached, and the result is the one for
  the list cut to four.
\<close>

theorem media_arity:
  assumes "uploadMediaAttachments sv client (doc_media data) w = (Inr mediaIds, w1)"
  shows "length mediaIds = min 4 (length (media_of data))
       \<and> list_all2 (\<lambda>item mediaId. fst (upload_item sv client item) = Inr mediaId)
            (take 4 (media_of data)) mediaIds
       \<and> length (filter is_media_upload_call (effects w1))
            = length (filter is_media_upload_call (effects w)) + length mediaIds
       \<and> filter is_tweet_call (effects (snd (publishTweetWithClient sv client tweetRef data w)))
            = filter is_tweet_call (effects w) @
                [TweetCall (if media_of data = [] then TextOnly (doc_text data)
                            else WithMedia (doc_text data) mediaIds)]
       \<and> uploadMediaAttachments sv client (Some (take 4 (media_of data))) w = (Inr mediaIds, w1)"
proof -
  from assms have loop: "upload_loop sv client (take 4 (media_of data)) [] w = (Inr mediaIds, w1)"
    by (simp add: uploadMediaAttachments_loop)
  from upload_loop_success [OF loop] have all2:
    "list_all2 (\<lambda>item mediaId. fst (upload_item sv client item) = Inr mediaId)
       (take 4 (media_of data)) mediaIds"
    by simp
  from list_all2_lengthD [OF this] have len: "length mediaIds = min 4 (length (media_of data))"
    by (simp add: min.commute)
  have w1: "w1 = w\<lparr>effects := effects w @
      concat (map (\<lambda>item. snd (upload_item sv client item)) (take 4 (media_of data)))\<rparr>"
    by (rule upload_loop_success_effects [OF loop])
  have uploads: "length (filter is_media_upload_call (effects w1))
      = length (filter is_media_upload_call (effects w)) + length mediaIds"
    by (subst w1) (simp add: upload_calls_count [OF all2])
  from upload_loop_world [OF loop] obtain calls where
    "w1 = w\<lparr>effects := effects w @ calls\<rparr>" "\<forall>c\<in>set calls. is_media_upload_call c"
    by blast
  then have same: "filter is_tweet_call (effects w1) = filter is_tweet_call (effects w)"
    by (simp add: media_calls_no_tweet)
  from len have empty: "mediaIds = [] \<longleftrightarrow> media_of data = []" by (auto simp: min_def split: if_splits)
  from len have "length mediaIds \<le> 4" by simp
  from publish_after_upload [OF assms this, of tweetRef] same empty
  have post: "filter is_tweet_call (effects (snd (publishTweetWithClient sv client tweetRef data w)))
      = filter is_tweet_call (effects w) @
          [TweetCall (if media_of data = [] then TextOnly (doc_text data)
                      else WithMedia (doc_text data) mediaIds)]"
    by simp
  have trunc: "uploadMediaAttachments sv client (Some (take 4 (media_of data))) w = (Inr mediaIds, w1)"
    using loop by (simp add: uploadMediaAttachments_Some)
  from len all2 uploads post trunc show ?thesis by blast
qed




lemma five_attachments_example:
  "fst (uploadMediaAttachments example_services example_client
      (doc_media (example_doc_with_media
         [example_png ''p1'', example_png ''p2'', example_png ''p3'', example_png ''p4'',
          example_png ''p5'']))
      (example_world Processing))
   = Inr [''id-p1'', ''id-p2'', ''id-p3'', ''id-p4'']"
  by (simp add: uploadMediaAttachments_def upload_item_def downloadMediaFromStorage_def
      example_doc_with_media_def example_png_def example_media_def example_services_def
      example_client_def)

theorem media_arity_witness:
  "filter is_tweet_call (effects (snd (publishTweetWithClient example_services example_client ''t1''
      (example_doc_with_media
         [example_png ''p1'', example_png ''p2'', example_png ''p3'', example_png ''p4'',
          example_png ''p5''])
      (example_world Processing))))
   = [TweetCall (WithMedia ''hello'' [''id-p1'', ''id-p2'', ''id-p3'', ''id-p4''])]"
  using media_arity [of example_services example_client
      "example_doc_with_media
         [example_png ''p1'', example_png ''p2'', example_png ''p3'', example_png ''p4'',
          example_png ''p5'']"
      "example_world Processing" "[''id-p1'', ''id-p2'', ''id-p3'', ''id-p4'']" _ "''t1''"]
    five_attachments_example
  by (simp add: prod_eq_iff media_of_def example_doc_with_media_def example_doc_def
      example_world_def)





section \<open>The publication coordinator: failures after the lock\<close>













section \<open>Two attempts on one item: lemmas and the claim\<close>






lemma manual_attempt_author:
  assumes "tweet_docs w tweetRef = Some d" "doc_status d \<noteq> Manual"
  shows "\<exists>m. lock_attempt (ManualCall (doc_authorUid d)) w tweetRef
      = (Refused (HttpsError FailedPrecondition m), w)"
  using assms by (simp add: lock_attempt_def manual_lock_def)






















section \<open>The bulk scheduler: lemmas and the claim\<close>








lemma upload_attempts_append [simp]:
  "upload_attempts (xs @ ys) = upload_attempts xs @ upload_attempts ys"
  by (simp add: upload_attempts_def)








section \<open>The publish pipeline as steps of the two-attempt model\<close>

lemma accepted_posts_append:
  "accepted_posts client (xs @ ys) = accepted_posts client xs + accepted_posts client ys"
  by (simp add: accepted_posts_def)

lemma accepted_posts_uploads:
  "\<forall>c\<in>set calls. is_media_upload_call c \<Longrightarrow> accepted_posts client calls = 0"
  by (induction calls)
    (auto simp: accepted_posts_def is_media_upload_call_def split: effect.splits)

text \<open>
  With the item in the store, \<open>publishTweetWithClient\<close> either records the post it made, or
  fails without an accepted post and without a write.
\<close>

lemma publish_records_accepted_post:
  assumes doc: "tweet_docs w tweetRef \<noteq> None"
    and run: "publishTweetWithClient sv client tweetRef data w = (r, w1)"
  shows "\<exists>made. effects w1 = effects w @ made
     \<and> ((r = Inr () \<and> accepted_posts client made = 1
           \<and> (\<exists>w'. tweet_docs w' = tweet_docs w \<and> serverTime w' = serverTime w
                 \<and> markTweetPosted w' tweetRef = Inr w1))
        \<or> ((\<exists>e. r = Inl e) \<and> accepted_posts client made = 0 \<and> tweet_docs w1 = tweet_docs w
             \<and> serverTime w1 = serverTime w))"
proof -
  obtain up wu where up: "uploadMediaAttachments sv client (doc_media data) w = (up, wu)"
    by (cases "uploadMediaAttachments sv client (doc_media data) w")
  then have "upload_loop sv client (take 4 (media_of data)) [] w = (up, wu)"
    by (simp add: uploadMediaAttachments_loop)
  from upload_loop_world [OF this] obtain calls where
    wu: "wu = w\<lparr>effects := effects w @ calls\<rparr>" and calls: "\<forall>c\<in>set calls. is_media_upload_call c"
    by blast
  note none = accepted_posts_uploads [OF calls, of client]
  show ?thesis
  proof (cases up)
    case (Inl e)
    with run up have "r = Inl e" "w1 = wu" by (simp_all add: publishTweetWithClient_def)
    with wu none show ?thesis by (intro exI [of _ calls]) simp
  next
    case (Inr mediaIds)
    define sent where "sent =
      (if length mediaIds > 0 then
         (case toMediaIdTuple mediaIds of
            Inl e \<Rightarrow> (Inl e, wu)
          | Inr mediaPayload \<Rightarrow> call_tweet client (WithMedia (doc_text data) mediaPayload) wu)
       else call_tweet client (TextOnly (doc_text data)) wu)"
    have run': "(r, w1) = (case sent of
        (Inl e, w2) \<Rightarrow> (Inl e, w2)
      | (Inr u, w2) \<Rightarrow>
          (case markTweetPosted w2 tweetRef of Inl e \<Rightarrow> (Inl e, w2) | Inr w3 \<Rightarrow> (Inr (), w3)))"
      using run up Inr by (simp add: publishTweetWithClient_def sent_def Let_def)
    have sent_cases: "(\<exists>e. sent = (Inl e, wu))
        \<or> (\<exists>request res. sent = (res, wu\<lparr>effects := effects wu @ [TweetCall request]\<rparr>)
              \<and> res = v2_tweet client request)"
      unfolding sent_def by (auto simp: call_tweet_def split: sum.splits)
    then show ?thesis
    proof
      assume "\<exists>e. sent = (Inl e, wu)"
      then obtain e where "sent = (Inl e, wu)" ..
      with run' have "r = Inl e" "w1 = wu" by simp_all
      with wu none show ?thesis by (intro exI [of _ calls]) simp
    next
      assume "\<exists>request res. sent = (res, wu\<lparr>effects := effects wu @ [TweetCall request]\<rparr>)
              \<and> res = v2_tweet client request"
      then obtain request where
        sent: "sent = (v2_tweet client request, wu\<lparr>effects := effects wu @ [TweetCall request]\<rparr>)"
        by blast
      let ?w2 = "wu\<lparr>effects := effects wu @ [TweetCall request]\<rparr>"
      show ?thesis
      proof (cases "v2_tweet client request")
        case (Inl e)
        with run' sent have "r = Inl e" "w1 = ?w2" by simp_all
        with wu none Inl show ?thesis
          by (intro exI [of _ "calls @ [TweetCall request]"])
            (simp add: accepted_posts_append, simp add: accepted_posts_def)
      next
        case accepted: (Inr u)
        from doc wu obtain d where "tweet_docs ?w2 tweetRef = Some d" by auto
        then obtain w3 where posted: "markTweetPosted ?w2 tweetRef = Inr w3"
          by (simp add: markTweetPosted_def update_doc_def)
        with run' sent accepted have r: "r = Inr ()" "w1 = w3" by simp_all
        from posted have "effects w3 = effects ?w2 @ [DocUpdate tweetRef
            [SetStatus Posted, SetPostedAtServerTimestamp, SetLastUpdatedAtServerTimestamp,
             SetLastError None]]"
          unfolding markTweetPosted_def by (rule update_doc_effects)
        with wu have eff: "effects w3 = effects w @ (calls @ [TweetCall request,
            DocUpdate tweetRef
              [SetStatus Posted, SetPostedAtServerTimestamp, SetLastUpdatedAtServerTimestamp,
               SetLastError None]])"
          by simp
        have acc: "accepted_posts client (calls @ [TweetCall request,
            DocUpdate tweetRef
              [SetStatus Posted, SetPostedAtServerTimestamp, SetLastUpdatedAtServerTimestamp,
               SetLastError None]]) = 1"
          using none accepted by (simp add: accepted_posts_append) (simp add: accepted_posts_def)
        have "tweet_docs ?w2 = tweet_docs w \<and> serverTime ?w2 = serverTime w
            \<and> markTweetPosted ?w2 tweetRef = Inr w1"
          using wu posted r by simp
        with r eff acc show ?thesis by blast
      qed
    qed
  qed
qed

lemma fail_and_return_exists:
  assumes "tweet_docs w tweetRef \<noteq> None"
  shows "\<exists>w1. fail_and_return w tweetRef message = (Inr (), w1)
     \<and> markTweetFailure w tweetRef message = Inr w1
     \<and> effects w1 = effects w @ [DocUpdate tweetRef (failure_fields message)]"
  using assms
  by (auto simp: fail_and_return_def markTweetFailure_def update_doc_def failure_fields_def)

text \<open>
  After the lock, the sweep pipeline returns normally, and it has done one of two things:
  written the failure, with no accepted post; or made exactly one accepted post and written
  \<open>posted\<close>. The write is made on a world that differs from the locked one by its effects
  only.
\<close>

lemma sweep_publish_outcome:
  assumes doc: "tweet_docs w tweetRef \<noteq> None"
    and run: "sweep_publish sv tweetRef data w = (r, w1)"
  shows "r = Inr ()
     \<and> ((posts_made sv data w w1 = 0
           \<and> (\<exists>w' message. tweet_docs w' = tweet_docs w \<and> serverTime w' = serverTime w
                 \<and> markTweetFailure w' tweetRef message = Inr w1))
        \<or> (posts_made sv data w w1 = 1
           \<and> (\<exists>w'. tweet_docs w' = tweet_docs w \<and> serverTime w' = serverTime w
                 \<and> markTweetPosted w' tweetRef = Inr w1)))"
proof (cases "sweep_client sv data w")
  case None
  then obtain message where "sweep_publish sv tweetRef data w = fail_and_return w tweetRef message"
    by (auto simp: sweep_publish_def sweep_client_def split: option.splits if_splits sum.splits)
  with run fail_and_return_exists [OF doc, of message]
  have "r = Inr ()" "markTweetFailure w tweetRef message = Inr w1" by auto
  with None show ?thesis by (auto simp: posts_made_def)
next
  case (Some client)
  then have pipeline: "sweep_publish sv tweetRef data w =
      (case publishTweetWithClient sv client tweetRef data w of
         (Inl error, wp) \<Rightarrow> fail_and_return wp tweetRef (message_or error ''Failed to post tweet'')
       | (Inr u, wp) \<Rightarrow> (Inr (), wp))"
    by (auto simp: sweep_publish_def sweep_client_def split: option.splits if_splits sum.splits)
  obtain rp wp where pub: "publishTweetWithClient sv client tweetRef data w = (rp, wp)"
    by (cases "publishTweetWithClient sv client tweetRef data w")
  from publish_records_accepted_post [OF doc pub] obtain made where
    made: "effects wp = effects w @ made"
    and alt: "(rp = Inr () \<and> accepted_posts client made = 1
           \<and> (\<exists>w'. tweet_docs w' = tweet_docs w \<and> serverTime w' = serverTime w
                 \<and> markTweetPosted w' tweetRef = Inr wp))
        \<or> ((\<exists>e. rp = Inl e) \<and> accepted_posts client made = 0 \<and> tweet_docs wp = tweet_docs w
             \<and> serverTime wp = serverTime w)"
    by blast
  from alt show ?thesis
  proof
    assume ok: "rp = Inr () \<and> accepted_posts client made = 1
           \<and> (\<exists>w'. tweet_docs w' = tweet_docs w \<and> serverTime w' = serverTime w
                 \<and> markTweetPosted w' tweetRef = Inr wp)"
    with run pipeline pub have "r = Inr ()" "w1 = wp" by simp_all
    moreover from ok made \<open>w1 = wp\<close> Some have "posts_made sv data w w1 = 1"
      by (simp add: posts_made_def)
    ultimately show ?thesis using ok by blast
  next
    assume bad: "(\<exists>e. rp = Inl e) \<and> accepted_posts client made = 0 \<and> tweet_docs wp = tweet_docs w
             \<and> serverTime wp = serverTime w"
    then obtain e where e: "rp = Inl e" by blast
    from bad doc have "tweet_docs wp tweetRef \<noteq> None" by simp
    from fail_and_return_exists [OF this, of "message_or e ''Failed to post tweet''"]
    obtain wf where wf: "fail_and_return wp tweetRef (message_or e ''Failed to post tweet'')
        = (Inr (), wf)"
      "markTweetFailure wp tweetRef (message_or e ''Failed to post tweet'') = Inr wf"
      "effects wf = effects wp @
         [DocUpdate tweetRef (failure_fields (message_or e ''Failed to post tweet''))]"
      by blast
    with run pipeline pub e have r: "r = Inr ()" "w1 = wf" by simp_all
    have "accepted_posts client (made @
        [DocUpdate tweetRef (failure_fields (message_or e ''Failed to post tweet''))]) = 0"
      using bad by (simp add: accepted_posts_append) (simp add: accepted_posts_def)
    with wf(3) made r Some have "posts_made sv data w w1 = 0"
      by (simp add: posts_made_def)
    with r wf(2) bad show ?thesis by blast
  qed
qed

lemma update_doc_same_docs:
  assumes "tweet_docs w' = tweet_docs w" "serverTime w' = serverTime w"
    and "update_doc w' tweetRef payload = Inr w1"
  shows "\<exists>w2. update_doc w tweetRef payload = Inr w2 \<and> tweet_docs w2 = tweet_docs w1
     \<and> serverTime w2 = serverTime w1"
  using assms by (auto simp: update_doc_def split: option.splits)

text \<open>
  A whole sweep attempt on an item of the store, run from a configuration in which the
  attempt is idle, is a run of the two-attempt model: it ends with the same documents, the
  attempt finished, and the counter raised by the accepted posts of the attempt.
\<close>

lemma sweep_attempt_is_run:
  assumes sweep: "triggers a = Sweep" and idle: "cfg_phase c a = Idle"
    and doc: "tweet_docs (cfg_world c) tweetRef \<noteq> None"
    and run: "processTweetDocument sv tweetRef data (cfg_world c) = (r, w1)"
  shows "\<exists>c' wl. (step tweetRef triggers)\<^sup>*\<^sup>* c c'
     \<and> tweet_docs (cfg_world c') = tweet_docs w1
     \<and> cfg_phase c' = (cfg_phase c)(a := Finished)
     \<and> cfg_posts c' = cfg_posts c + posts_made sv data wl w1
     \<and> (sweep_lock (cfg_world c) tweetRef = Inr (True, wl)
          \<or> sweep_lock (cfg_world c) tweetRef = Inr (False, wl) \<and> w1 = wl)"
proof -
  from doc obtain d where d: "tweet_docs (cfg_world c) tweetRef = Some d" by auto
  show ?thesis
  proof (cases "doc_status d = Processing \<or> doc_status d = Posted")
    case True
    from sweep_lock_skip [OF d True] have lock: "sweep_lock (cfg_world c) tweetRef
        = Inr (False, cfg_world c)" .
    with run have w1: "w1 = cfg_world c" by (simp add: processTweetDocument_def)
    from lock sweep have att: "lock_attempt (triggers a) (cfg_world c) tweetRef
        = (Skipped, cfg_world c)"
      by (simp add: lock_attempt_def)
    define c' where "c' = c\<lparr>cfg_world := cfg_world c,
        cfg_phase := (cfg_phase c)(a := (if Skipped = Acquired then Holding else Finished))\<rparr>"
    have "step tweetRef triggers c c'"
      unfolding c'_def by (rule lock_step [where triggers = triggers and a = a, OF idle att])
    moreover have "tweet_docs (cfg_world c') = tweet_docs w1"
      "cfg_phase c' = (cfg_phase c)(a := Finished)"
      "cfg_posts c' = cfg_posts c + posts_made sv data (cfg_world c) w1"
      by (simp_all add: c'_def w1 posts_made_def accepted_posts_def split: option.splits)
    ultimately show ?thesis using lock w1 by blast
  next
    case False
    from sweep_lock_acquire [OF d] False obtain wl where
      lock: "sweep_lock (cfg_world c) tweetRef = Inr (True, wl)"
      and wl_doc: "tweet_docs wl tweetRef \<noteq> None"
      by auto
    with run have pipe: "sweep_publish sv tweetRef data wl = (r, w1)"
      by (simp add: processTweetDocument_def)
    from lock sweep have att: "lock_attempt (triggers a) (cfg_world c) tweetRef = (Acquired, wl)"
      by (simp add: lock_attempt_def)
    define c1 where "c1 = c\<lparr>cfg_world := wl,
        cfg_phase := (cfg_phase c)(a := (if Acquired = Acquired then Holding else Finished))\<rparr>"
    have s1: "step tweetRef triggers c c1"
      unfolding c1_def by (rule lock_step [where triggers = triggers and a = a, OF idle att])
    have c1: "cfg_world c1 = wl" "cfg_phase c1 = (cfg_phase c)(a := Holding)"
      "cfg_posts c1 = cfg_posts c"
      by (simp_all add: c1_def)
    from sweep_publish_outcome [OF wl_doc pipe] have
      "(posts_made sv data wl w1 = 0
           \<and> (\<exists>w' message. tweet_docs w' = tweet_docs wl \<and> serverTime w' = serverTime wl
                 \<and> markTweetFailure w' tweetRef message = Inr w1))
        \<or> (posts_made sv data wl w1 = 1
           \<and> (\<exists>w'. tweet_docs w' = tweet_docs wl \<and> serverTime w' = serverTime wl
                 \<and> markTweetPosted w' tweetRef = Inr w1))"
      by blast
    then show ?thesis
    proof
      assume "posts_made sv data wl w1 = 0
           \<and> (\<exists>w' message. tweet_docs w' = tweet_docs wl \<and> serverTime w' = serverTime wl
                 \<and> markTweetFailure w' tweetRef message = Inr w1)"
      then obtain w' message where n: "posts_made sv data wl w1 = 0"
        and w': "tweet_docs w' = tweet_docs wl" "serverTime w' = serverTime wl"
        and fail: "markTweetFailure w' tweetRef message = Inr w1"
        by blast
      from update_doc_same_docs [OF w' fail [unfolded markTweetFailure_def]]
      obtain w2 where w2: "markTweetFailure (cfg_world c1) tweetRef message = Inr w2"
        "tweet_docs w2 = tweet_docs w1"
        unfolding markTweetFailure_def c1(1) by blast
      define c2 where "c2 = c1\<lparr>cfg_world := w2, cfg_phase := (cfg_phase c1)(a := Finished)\<rparr>"
      have "step tweetRef triggers c1 c2"
        unfolding c2_def by (rule failure_step [OF _ w2(1)]) (simp add: c1)
      with s1 have "(step tweetRef triggers)\<^sup>*\<^sup>* c c2" by auto
      moreover have "tweet_docs (cfg_world c2) = tweet_docs w1"
        "cfg_phase c2 = (cfg_phase c)(a := Finished)"
        "cfg_posts c2 = cfg_posts c + posts_made sv data wl w1"
        by (simp_all add: c2_def c1 w2 n)
      ultimately show ?thesis using lock by blast
    next
      assume "posts_made sv data wl w1 = 1
           \<and> (\<exists>w'. tweet_docs w' = tweet_docs wl \<and> serverTime w' = serverTime wl
                 \<and> markTweetPosted w' tweetRef = Inr w1)"
      then obtain w' where n: "posts_made sv data wl w1 = 1"
        and w': "tweet_docs w' = tweet_docs wl" "serverTime w' = serverTime wl"
        and posted: "markTweetPosted w' tweetRef = Inr w1"
        by blast
      define c2 where "c2 = c1\<lparr>cfg_phase := (cfg_phase c1)(a := Tweeted),
          cfg_posts := cfg_posts c1 + 1\<rparr>"
      have s2: "step tweetRef triggers c1 c2"
        unfolding c2_def by (rule post_step) (simp add: c1)
      have c2: "cfg_world c2 = wl" "cfg_phase c2 = (cfg_phase c)(a := Tweeted)"
        "cfg_posts c2 = cfg_posts c + 1"
        by (simp_all add: c2_def c1)
      from update_doc_same_docs [OF w' posted [unfolded markTweetPosted_def]]
      obtain w3 where w3: "markTweetPosted (cfg_world c2) tweetRef = Inr w3"
        "tweet_docs w3 = tweet_docs w1"
        unfolding markTweetPosted_def c2(1) by blast
      define c3 where "c3 = c2\<lparr>cfg_world := w3, cfg_phase := (cfg_phase c2)(a := Finished)\<rparr>"
      have "step tweetRef triggers c2 c3"
        unfolding c3_def by (rule posted_step [OF _ w3(1)]) (simp add: c2)
      with s1 s2 have "(step tweetRef triggers)\<^sup>*\<^sup>* c c3" by auto
      moreover have "tweet_docs (cfg_world c3) = tweet_docs w1"
        "cfg_phase c3 = (cfg_phase c)(a := Finished)"
        "cfg_posts c3 = cfg_posts c + posts_made sv data wl w1"
        by (simp_all add: c3_def c2 w3 n)
      ultimately show ?thesis using lock by blast
    qed
  qed
qed

end
